theory Spec2Isabelle
  imports Complex_Main
begin

section \<open>Common Python notions\<close>

text \<open>
  Exceptions of the Python source are values: every function that can raise returns
  \<open>error + 'a\<close>, with \<open>Inl\<close> for the exception.
\<close>

datatype error =
    MeshError string
  | IndexError
  | UnboundLocalError
  | NameError
  | AttributeError
  | TypeError
  | ValueError
  | ZeroDivisionError
  | NonFinite

text \<open>A Python value that is either \<open>None\<close> or an integer.\<close>

datatype pyval = PyNone | PyInt int

text \<open>
  Points are \<open>dvec3\<close> values.  Floating-point coordinates are idealised as real numbers.
\<close>

type_synonym vec3 = "real \<times> real \<times> real"

type_synonym 'i face = "'i \<times> 'i \<times> 'i"

type_synonym 'i edge = "'i \<times> 'i"

section \<open>Meshes (madcad/mesh.py)\<close>

text \<open>
  The class \<open>Mesh\<close>: a point buffer, triangles as triples of point indices, one track
  (group index) per face, and the group buffer.  The index type is a parameter: faces hold
  Python integers (\<open>int\<close>), except where the source stores other values in them.
\<close>

record ('i, 'g) Mesh =
  points :: "vec3 list"
  faces :: "'i face list"
  tracks :: "int list"
  groups :: "'g list"

text \<open>The three oriented edges of a face, in the order the source enumerates them:
  \<open>(f[0],f[1]), (f[1],f[2]), (f[2],f[0])\<close>.\<close>

fun face_edges :: "'i face \<Rightarrow> 'i edge list" where
  "face_edges (a, b, c) = [(a, b), (b, c), (c, a)]"

fun swap_edge :: "'i edge \<Rightarrow> 'i edge" where
  "swap_edge (a, b) = (b, a)"

text \<open>\<open>Mesh.flip\<close>: every face \<open>(f[0],f[1],f[2])\<close> becomes \<open>(f[0],f[2],f[1])\<close>.\<close>

fun flip_face :: "'i face \<Rightarrow> 'i face" where
  "flip_face (a, b, c) = (a, c, b)"

definition flip :: "('i, 'g) Mesh \<Rightarrow> ('i, 'g) Mesh" where
  "flip m = m\<lparr>faces := map flip_face (faces m)\<rparr>"

text \<open>\<open>Mesh.edges_oriented\<close>: the oriented edges of all faces, in order.\<close>

definition edges_oriented :: "('i, 'g) Mesh \<Rightarrow> 'i edge list" where
  "edges_oriented m = concat (map face_edges (faces m))"

text \<open>
  \<open>Mesh.outlines_oriented\<close>: one step of the loop body, for one oriented edge \<open>e\<close>:
  remove \<open>e\<close> when it is in the set, otherwise add its reverse.
\<close>

definition outline_step :: "'i edge \<Rightarrow> 'i edge set \<Rightarrow> 'i edge set" where
  "outline_step e edges = (if e \<in> edges then edges - {e} else insert (swap_edge e) edges)"

definition outlines_oriented :: "('i, 'g) Mesh \<Rightarrow> 'i edge set" where
  "outlines_oriented m = fold outline_step (edges_oriented m) {}"

text \<open>\<open>Mesh.issurface\<close>: false as soon as an oriented edge is met a second time.\<close>

fun issurface_scan :: "'i edge list \<Rightarrow> 'i edge set \<Rightarrow> bool" where
  "issurface_scan [] reached = True"
| "issurface_scan (e # es) reached =
     (if e \<in> reached then False else issurface_scan es (insert e reached))"

definition issurface :: "('i, 'g) Mesh \<Rightarrow> bool" where
  "issurface m = issurface_scan (edges_oriented m) {}"

text \<open>\<open>Mesh.check\<close>: raises \<open>MeshError\<close> when the buffers are inconsistent.\<close>

fun check_face :: "int \<Rightarrow> int face \<Rightarrow> error + unit" where
  "check_face l (a, b, c) =
     (if a \<ge> l then Inl (MeshError ''some point indices are greater than the number of points'')
      else if a < 0 then Inl (MeshError ''point indices must be positive'')
      else if b \<ge> l then Inl (MeshError ''some point indices are greater than the number of points'')
      else if b < 0 then Inl (MeshError ''point indices must be positive'')
      else if c \<ge> l then Inl (MeshError ''some point indices are greater than the number of points'')
      else if c < 0 then Inl (MeshError ''point indices must be positive'')
      else if a = b \<or> b = c \<or> c = a
        then Inl (MeshError ''some faces use the same point multiple times'')
      else Inr ())"

fun check_faces :: "int \<Rightarrow> int face list \<Rightarrow> error + unit" where
  "check_faces l [] = Inr ()"
| "check_faces l (f # fs) =
     (case check_face l f of Inl e \<Rightarrow> Inl e | Inr u \<Rightarrow> check_faces l fs)"

text \<open>Python's \<open>max(xs, default=d)\<close>.\<close>

definition max_default :: "int list \<Rightarrow> int \<Rightarrow> int" where
  "max_default xs d = (case xs of [] \<Rightarrow> d | y # ys \<Rightarrow> fold max ys y)"

definition check :: "(int, 'g) Mesh \<Rightarrow> error + unit" where
  "check m =
     (case check_faces (int (length (points m))) (faces m) of
        Inl e \<Rightarrow> Inl e
      | Inr u \<Rightarrow>
          if length (faces m) \<noteq> length (tracks m)
            then Inl (MeshError ''tracks list doesn't match faces list length'')
          else if max_default (tracks m) (- 1) \<ge> int (length (groups m))
            then Inl (MeshError ''some face group indices are greater than the number of groups'')
          else Inr ())"

section \<open>Vector operations (glm), idealised over the reals\<close>

fun vsub :: "vec3 \<Rightarrow> vec3 \<Rightarrow> vec3" where
  "vsub (a, b, c) (x, y, z) = (a - x, b - y, c - z)"

fun vadd :: "vec3 \<Rightarrow> vec3 \<Rightarrow> vec3" where
  "vadd (a, b, c) (x, y, z) = (a + x, b + y, c + z)"

fun vscale :: "real \<Rightarrow> vec3 \<Rightarrow> vec3" where
  "vscale k (x, y, z) = (k * x, k * y, k * z)"

fun dot :: "vec3 \<Rightarrow> vec3 \<Rightarrow> real" where
  "dot (a, b, c) (x, y, z) = a * x + b * y + c * z"

fun cross :: "vec3 \<Rightarrow> vec3 \<Rightarrow> vec3" where
  "cross (a, b, c) (x, y, z) = (b * z - c * y, c * x - a * z, a * y - b * x)"

definition length2 :: "vec3 \<Rightarrow> real" where
  "length2 v = dot v v"

definition vlength :: "vec3 \<Rightarrow> real" where
  "vlength v = sqrt (dot v v)"

definition normalize :: "vec3 \<Rightarrow> vec3" where
  "normalize v = vscale (1 / vlength v) v"


text \<open>A float that may be infinite: \<open>-inf\<close>, a real number, or \<open>inf\<close>.\<close>

datatype xreal = NegInf | Fin real | PosInf

fun xgt :: "xreal \<Rightarrow> xreal \<Rightarrow> bool" where
  "xgt NegInf y = False"
| "xgt (Fin a) NegInf = True"
| "xgt (Fin a) (Fin b) = (a > b)"
| "xgt (Fin a) PosInf = False"
| "xgt PosInf PosInf = False"
| "xgt PosInf y = True"

text \<open>\<open>connef\<close>: dictionary from oriented edge to the index of the face using it (last write wins).\<close>

definition connef :: "'i face list \<Rightarrow> ('i edge \<rightharpoonup> nat)" where
  "connef fs = fold (\<lambda>(i, f) conn. fold (\<lambda>e c. c(e \<mapsto> i)) (face_edges f) conn) (enumerate 0 fs) Map.empty"

text \<open>The edges \<open>(f[i], f[i-1])\<close> for \<open>i = 0, 1, 2\<close>.\<close>

fun back_edges :: "'i face \<Rightarrow> 'i edge list" where
  "back_edges (a, b, c) = [(a, c), (b, a), (c, b)]"

fun find_scan :: "nat list \<Rightarrow> bool list \<Rightarrow> nat list \<Rightarrow> nat option \<Rightarrow> nat list \<times> nat option" where
  "find_scan [] reached stack last_i = (stack, last_i)"
| "find_scan (i # is) reached stack last_i =
     (if \<not> reached ! i then (i # stack, Some i) else find_scan is reached stack (Some i))"

definition find :: "nat \<Rightarrow> nat list \<Rightarrow> bool list \<Rightarrow> error + (nat list \<times> nat)" where
  "find start stack reached =
     (case find_scan [start ..< length reached] reached stack None of
        (stack', None) \<Rightarrow> Inl UnboundLocalError
      | (stack', Some i) \<Rightarrow> Inr (stack', i))"

fun push_conn :: "('i edge \<rightharpoonup> nat) \<Rightarrow> bool list \<Rightarrow> nat list \<Rightarrow> 'i edge list \<Rightarrow> error + nat list" where
  "push_conn conn reached stack [] = Inr stack"
| "push_conn conn reached stack (e # es) =
     (case conn e of
        None \<Rightarrow> push_conn conn reached stack es
      | Some j \<Rightarrow>
          if j \<ge> length reached then Inl IndexError
          else if \<not> reached ! j then push_conn conn reached (j # stack) es
          else push_conn conn reached stack es)"

function prop_drain ::
  "(nat \<Rightarrow> bool list \<Rightarrow> 's \<Rightarrow> error + 's) \<Rightarrow> 'i face list \<Rightarrow> ('i edge \<rightharpoonup> nat) \<Rightarrow>
   nat list \<Rightarrow> bool list \<Rightarrow> 's \<Rightarrow> error + (bool list \<times> 's)" where
  "prop_drain atface fs conn [] reached s = Inr (reached, s)"
| "prop_drain atface fs conn (i # stack) reached s =
     (if i \<ge> length reached then Inl IndexError
      else if reached ! i then prop_drain atface fs conn stack reached s
      else
        (case atface i (reached[i := True]) s of
           Inl e \<Rightarrow> Inl e
         | Inr s' \<Rightarrow>
             if i \<ge> length fs then Inl IndexError
             else
               (case push_conn conn (reached[i := True]) stack (back_edges (fs ! i)) of
                  Inl e \<Rightarrow> Inl e
                | Inr stack' \<Rightarrow> prop_drain atface fs conn stack' (reached[i := True]) s')))"
  by pat_completeness auto

definition unreached :: "bool list \<Rightarrow> nat" where
  "unreached reached = length (filter Not reached)"

lemma unreached_update:
  "i < length reached \<Longrightarrow> \<not> reached ! i \<Longrightarrow> unreached (reached[i := True]) < unreached reached"
proof (induction reached arbitrary: i)
  case Nil
  then show ?case by simp
next
  case (Cons r rs)
  then show ?case by (cases i) (auto simp: unreached_def)
qed

termination prop_drain
  by (relation "measures [\<lambda>(atface, fs, conn, stack, reached, s). unreached reached,
                          \<lambda>(atface, fs, conn, stack, reached, s). length stack]")
     (auto simp: unreached_update)

lemma prop_drain_unreached:
  "prop_drain atface fs conn stack reached s = Inr (reached', s') \<Longrightarrow>
   unreached reached' \<le> unreached reached \<and>
   (\<forall>i rest. stack = i # rest \<and> \<not> reached ! i \<longrightarrow> unreached reached' < unreached reached)"
proof (induction atface fs conn stack reached s rule: prop_drain.induct)
  case (1 atface fs conn reached s)
  then show ?case by simp
next
  case (2 atface fs conn i stack reached s)
  show ?case
  proof (cases "reached ! i")
    case True
    with 2 show ?thesis by (auto split: if_splits)
  next
    case False
    with "2.prems" obtain s1 stack1 where
      a: "i < length reached" "atface i (reached[i := True]) s = Inr s1" "i < length fs"
         "push_conn conn (reached[i := True]) stack (back_edges (fs ! i)) = Inr stack1"
         "prop_drain atface fs conn stack1 (reached[i := True]) s1 = Inr (reached', s')"
      by (auto split: if_splits sum.splits)
    have "unreached reached' \<le> unreached (reached[i := True])"
      using "2.IH"(2)[of s1 stack1] a False by auto
    moreover have "unreached (reached[i := True]) < unreached reached"
      using a False by (simp add: unreached_update)
    ultimately show ?thesis by auto
  qed
qed

lemma find_scan_cases:
  "find_scan is reached stack l = (stack', r) \<Longrightarrow>
   stack' = stack \<or> (\<exists>i. stack' = i # stack \<and> i \<in> set is \<and> \<not> reached ! i)"
  by (induction "is" arbitrary: l) (auto split: if_splits)

function prop_loop ::
  "(nat \<Rightarrow> bool list \<Rightarrow> 's \<Rightarrow> error + 's) \<Rightarrow> (bool list \<Rightarrow> 's \<Rightarrow> error + 's) option \<Rightarrow>
   'i face list \<Rightarrow> ('i edge \<rightharpoonup> nat) \<Rightarrow> nat \<Rightarrow> bool list \<Rightarrow> 's \<Rightarrow> error + 's" where
  "prop_loop atface atisland fs conn start reached s =
     (case find start [] reached of
        Inl e \<Rightarrow> Inl e
      | Inr (stack, start') \<Rightarrow>
          if stack = [] then Inr s
          else
            (case prop_drain atface fs conn stack reached s of
               Inl e \<Rightarrow> Inl e
             | Inr (reached', s') \<Rightarrow>
                 (case atisland of
                    None \<Rightarrow> prop_loop atface atisland fs conn start' reached' s'
                  | Some g \<Rightarrow>
                      (case g reached' s' of
                         Inl e \<Rightarrow> Inl e
                       | Inr s'' \<Rightarrow> prop_loop atface atisland fs conn start' reached' s''))))"
  by pat_completeness auto

lemma find_drain_decreases:
  assumes "find start [] reached = Inr (stack, start')" "stack \<noteq> []"
    "prop_drain atface fs conn stack reached s = Inr (reached', s')"
  shows "unreached reached' < unreached reached"
proof -
  obtain r where "find_scan [start ..< length reached] reached [] None = (stack, r)"
    using assms(1) by (auto simp: find_def split: prod.splits option.splits)
  from find_scan_cases[OF this] assms(2)
  obtain i where "stack = [i]" "\<not> reached ! i" by auto
  with prop_drain_unreached[OF assms(3)] show ?thesis by auto
qed

termination prop_loop
  by (relation "measure (\<lambda>(atface, atisland, fs, conn, start, reached, s). unreached reached)")
     (auto dest: find_drain_decreases)

declare prop_loop.simps [simp del]

definition propagate ::
  "(nat \<Rightarrow> bool list \<Rightarrow> 's \<Rightarrow> error + 's) \<Rightarrow> (bool list \<Rightarrow> 's \<Rightarrow> error + 's) option \<Rightarrow>
   ('i, 'g) Mesh \<Rightarrow> 's \<Rightarrow> error + 's" where
  "propagate atface atisland m s =
     prop_loop atface atisland (faces m) (connef (faces m)) 0 (replicate (length (faces m)) False) s"

text \<open>Python's \<open>xs[i]\<close> for a non-negative index.\<close>

definition getitem :: "'a list \<Rightarrow> nat \<Rightarrow> error + 'a" where
  "getitem xs i = (if i < length xs then Inr (xs ! i) else Inl IndexError)"

definition islands_atface ::
  "('i, 'g) Mesh \<Rightarrow> nat \<Rightarrow> bool list \<Rightarrow>
   ('i, 'g) Mesh list \<times> 'i face list \<times> int list \<Rightarrow>
   error + (('i, 'g) Mesh list \<times> 'i face list \<times> int list)" where
  "islands_atface m i reached st =
     (case st of (islands, fs, ts) \<Rightarrow>
        (case getitem (faces m) i of
           Inl e \<Rightarrow> Inl e
         | Inr f \<Rightarrow>
             (case getitem (tracks m) i of
                Inl e \<Rightarrow> Inl e
              | Inr t \<Rightarrow> Inr (islands, fs @ [f], ts @ [t]))))"

definition islands_atisland ::
  "('i, 'g) Mesh \<Rightarrow> bool list \<Rightarrow>
   ('i, 'g) Mesh list \<times> 'i face list \<times> int list \<Rightarrow>
   error + (('i, 'g) Mesh list \<times> 'i face list \<times> int list)" where
  "islands_atisland m reached st =
     (case st of (islands, fs, ts) \<Rightarrow>
        Inr (islands @ [\<lparr>points = points m, faces = fs, tracks = ts, groups = groups m\<rparr>], [], []))"

definition islands :: "('i, 'g) Mesh \<Rightarrow> error + ('i, 'g) Mesh list" where
  "islands m =
     (case propagate (islands_atface m) (Some (islands_atisland m)) m ([], [], []) of
        Inl e \<Rightarrow> Inl e
      | Inr (islands, fs, ts) \<Rightarrow> Inr islands)"

text \<open>Python list indexing with an integer: negative indices count from the end.\<close>

definition pyindex :: "'a list \<Rightarrow> int \<Rightarrow> error + 'a" where
  "pyindex xs i =
     (if 0 \<le> i \<and> i < int (length xs) then Inr (xs ! nat i)
      else if i < 0 \<and> - int (length xs) \<le> i then Inr (xs ! nat (int (length xs) + i))
      else Inl IndexError)"

definition pynth :: "'a list \<Rightarrow> int \<Rightarrow> 'a" where
  "pynth xs i = xs ! nat (if i < 0 then int (length xs) + i else i)"

fun edgekey :: "int edge \<Rightarrow> int edge" where
  "edgekey (a, b) = (if a < b then (a, b) else (b, a))"

text \<open>
  \<open>Mesh.facepoints\<close>, \<open>Mesh.facenormal\<close>, \<open>Mesh.facenormals\<close>, \<open>Mesh.barycenter\<close>.  A glm vector
  divided by zero has \<open>nan\<close> components and raises nothing: the normal of a face of no area
  and the barycenter of a mesh of no area are such vectors, written \<open>None\<close> here.
\<close>

definition facepoints :: "vec3 list \<Rightarrow> int face \<Rightarrow> error + (vec3 \<times> vec3 \<times> vec3)" where
  "facepoints pts f =
     (case f of (a, b, c) \<Rightarrow>
        (case pyindex pts a of Inl e \<Rightarrow> Inl e | Inr pa \<Rightarrow>
        (case pyindex pts b of Inl e \<Rightarrow> Inl e | Inr pb \<Rightarrow>
        (case pyindex pts c of Inl e \<Rightarrow> Inl e | Inr pc \<Rightarrow> Inr (pa, pb, pc)))))"

definition facenormal :: "vec3 list \<Rightarrow> int face \<Rightarrow> error + vec3 option" where
  "facenormal pts f =
     (case facepoints pts f of
        Inl e \<Rightarrow> Inl e
      | Inr (p0, p1, p2) \<Rightarrow>
          (let n = cross (vsub p1 p0) (vsub p2 p0)
           in if vlength n = 0 then Inr None else Inr (Some (normalize n))))"

fun facenormals_list :: "vec3 list \<Rightarrow> int face list \<Rightarrow> error + vec3 option list" where
  "facenormals_list pts [] = Inr []"
| "facenormals_list pts (f # fs) =
     (case facenormal pts f of
        Inl e \<Rightarrow> Inl e
      | Inr n \<Rightarrow> (case facenormals_list pts fs of Inl e \<Rightarrow> Inl e | Inr ns \<Rightarrow> Inr (n # ns)))"

definition facenormals :: "(int, 'g) Mesh \<Rightarrow> error + vec3 option list" where
  "facenormals m = facenormals_list (points m) (faces m)"

fun barycenter_loop :: "vec3 list \<Rightarrow> int face list \<Rightarrow> vec3 \<Rightarrow> real \<Rightarrow> error + (vec3 \<times> real)" where
  "barycenter_loop pts [] acc tot = Inr (acc, tot)"
| "barycenter_loop pts (f # fs) acc tot =
     (case facepoints pts f of
        Inl e \<Rightarrow> Inl e
      | Inr (a, b, c) \<Rightarrow>
          (let weight = vlength (cross (vsub b a) (vsub c a))
           in barycenter_loop pts fs (vadd acc (vscale weight (vadd (vadd a b) c))) (tot + weight)))"

definition barycenter :: "(int, 'g) Mesh \<Rightarrow> error + vec3 option" where
  "barycenter m =
     (if faces m = [] then Inr (Some (0, 0, 0))
      else (case barycenter_loop (points m) (faces m) (0, 0, 0) 0 of
              Inl e \<Rightarrow> Inl e
            | Inr (acc, tot) \<Rightarrow>
                if tot = 0 then Inr None else Inr (Some (vscale (1 / (3 * tot)) acc))))"

section \<open>Orientation propagation\<close>

text \<open>
  \<open>Mesh.orient(dir=None, conn=None)\<close>.  Before its loop the method defines the two lambdas
  \<open>metric\<close> and \<open>orient\<close> (calling \<open>self.barycenter()\<close> when no direction is given), builds
  the association of the edges to the faces, copies the faces and computes the face
  normals.  Of these steps \<open>barycenter\<close> and \<open>facenormals\<close> can raise, by indexing the points.
\<close>

definition orient_setup :: "vec3 option \<Rightarrow> (int, 'g) Mesh \<Rightarrow> error + vec3 option list" where
  "orient_setup dir m =
     (case dir of
        Some d \<Rightarrow> facenormals m
      | None \<Rightarrow> (case barycenter m of Inl e \<Rightarrow> Inl e | Inr center \<Rightarrow> facenormals m))"

text \<open>
  The loop \<open>while True:\<close> begins with \<open>best = (-inf,0)\<close>.  The module binds no name \<open>inf\<close>:
  it imports \<open>math\<close> (and writes \<open>math.inf\<close> in \<open>groupnear\<close>), and \<open>from .mathutils import *\<close>
  brings the names of glm, \<open>pi\<close> and \<open>atan2\<close>.  The statement raises \<open>NameError\<close> the first
  time it is met: the search of a start face, the propagation to the neighbours and the
  \<open>return\<close> that follow in the source are never reached.
\<close>

definition orient :: "vec3 option \<Rightarrow> (int, 'g) Mesh \<Rightarrow> error + (int, 'g) Mesh" where
  "orient dir m =
     (case orient_setup dir m of
        Inl e \<Rightarrow> Inl e
      | Inr normals \<Rightarrow> Inl NameError)"

section \<open>Spatial hashing (hashing.py)\<close>

type_synonym cell = "int \<times> int \<times> int"

text \<open>
  \<open>ivec3(v)\<close>: glm converts a double vector to an integer vector component by component,
  as C++ converts a double to an int: towards zero.
\<close>

definition trunc_int :: "real \<Rightarrow> int" where
  "trunc_int x = (if 0 \<le> x then \<lfloor>x\<rfloor> else \<lceil>x\<rceil>)"

fun ivec3 :: "vec3 \<Rightarrow> cell" where
  "ivec3 (x, y, z) = (trunc_int x, trunc_int y, trunc_int z)"

fun vdiv :: "vec3 \<Rightarrow> real \<Rightarrow> vec3" where
  "vdiv (x, y, z) c = (x / c, y / c, z / c)"

text \<open>\<open>x % c\<close> on floats, in Python and in glm (\<open>mod\<close>): \<open>x - c * floor(x / c)\<close>.\<close>

definition pymod :: "real \<Rightarrow> real \<Rightarrow> real" where
  "pymod x c = x - c * of_int \<lfloor>x / c\<rfloor>"

fun vmod :: "vec3 \<Rightarrow> real \<Rightarrow> vec3" where
  "vmod (x, y, z) c = (pymod x c, pymod y c, pymod z c)"

text \<open>The primitives that \<open>keysfor\<close> tells apart by their Python type.\<close>

datatype space = Point vec3 | Segment vec3 vec3 | Triangle vec3 vec3 vec3 | Other

subsection \<open>Segments\<close>

text \<open>
  One component of \<open>glm.abs((cell - p%cell)/v)\<close>.  Where \<open>v\<close> has a zero component the
  division of the positive numerator gives \<open>inf\<close>.
\<close>

definition prox_component :: "real \<Rightarrow> real \<Rightarrow> real \<Rightarrow> xreal" where
  "prox_component cell p v = (if v = 0 then PosInf else Fin \<bar>(cell - pymod p cell) / v\<bar>)"

fun prox_of :: "real \<Rightarrow> vec3 \<Rightarrow> vec3 \<Rightarrow> xreal list" where
  "prox_of cell (px, py, pz) (vx, vy, vz) =
     [prox_component cell px vx, prox_component cell py vy, prox_component cell pz vz]"

text \<open>
  The selection of the axis, as the source writes it:
  \<open>i = 0; if prox[1] < prox[i]: i=1; if prox[1] < prox[i]: i=2\<close>.
\<close>

definition choose_axis :: "xreal list \<Rightarrow> nat" where
  "choose_axis prox =
     (let i = 0;
          i = (if xgt (prox ! i) (prox ! 1) then 1 else i);
          i = (if xgt (prox ! i) (prox ! 1) then 2 else i)
      in i)"

text \<open>
  The loop \<open>while dot(space[1]-p,v) >= 0\<close>.  It is not known to end on every input, so it
  returns an option; \<open>acc\<close> holds the cells yielded so far.  When the selected \<open>prox\<close> is
  infinite, the source goes on with \<open>inf\<close> and \<open>nan\<close> coordinates: the model stops with
  \<open>NonFinite\<close>.
\<close>

partial_function (option) segment_loop ::
  "real \<Rightarrow> vec3 \<Rightarrow> vec3 \<Rightarrow> vec3 \<Rightarrow> cell list \<Rightarrow> (error + cell list) option" where
  "segment_loop cell b v p acc =
     (if dot (vsub b p) v \<ge> 0 then
        (case prox_of cell p v ! choose_axis (prox_of cell p v) of
           Fin t \<Rightarrow>
             segment_loop cell b v (vadd p (vscale t v))
               (acc @ [ivec3 (vdiv (vadd p (vscale (1 / 2) (vscale t v))) cell)])
         | _ \<Rightarrow> Some (Inl NonFinite))
      else Some (Inr acc))"

text \<open>
  \<open>normalize\<close> of the zero vector is \<open>nan\<close> in glm, and the loop condition is then false:
  a segment whose ends coincide yields the cell of its start only.
\<close>

definition keysfor_segment :: "real \<Rightarrow> vec3 \<Rightarrow> vec3 \<Rightarrow> (error + cell list) option" where
  "keysfor_segment cell a b =
     (if b = a then Some (Inr [ivec3 (vdiv a cell)])
      else segment_loop cell b (normalize (vsub b a)) a [ivec3 (vdiv a cell)])"

subsection \<open>Triangles\<close>

fun vabs :: "vec3 \<Rightarrow> vec3" where
  "vabs (x, y, z) = (\<bar>x\<bar>, \<bar>y\<bar>, \<bar>z\<bar>)"

fun vmin :: "vec3 \<Rightarrow> vec3 \<Rightarrow> vec3" where
  "vmin (a, b, c) (x, y, z) = (min a x, min b y, min c z)"

fun vmax :: "vec3 \<Rightarrow> vec3 \<Rightarrow> vec3" where
  "vmax (a, b, c) (x, y, z) = (max a x, max b y, max c z)"

text \<open>\<open>p[i]\<close> for a vector and an index 0, 1 or 2.\<close>

fun vnth :: "'a \<times> 'a \<times> 'a \<Rightarrow> nat \<Rightarrow> 'a" where
  "vnth (x, y, z) i = (if i = 0 then x else if i = 1 then y else z)"

text \<open>The permutation of the coordinates that puts the largest component of the normal on Z.\<close>

definition axis_order :: "vec3 \<Rightarrow> nat \<times> nat \<times> nat" where
  "axis_order n =
     (if vnth n 1 \<ge> vnth n 0 \<and> vnth n 1 \<ge> vnth n 2 then (2, 0, 1)
      else if vnth n 0 \<ge> vnth n 1 \<and> vnth n 0 \<ge> vnth n 2 then (1, 2, 0)
      else (0, 1, 2))"

definition permute :: "nat \<times> nat \<times> nat \<Rightarrow> 'a \<times> 'a \<times> 'a \<Rightarrow> 'a \<times> 'a \<times> 'a" where
  "permute order p = (vnth p (vnth order 0), vnth p (vnth order 1), vnth p (vnth order 2))"

text \<open>
  The centres \<open>lo + cell*i + cell2\<close> for \<open>i\<close> in \<open>range(max(1, ceil((hi-lo)/cell)))\<close>,
  where \<open>lo\<close> has been aligned by \<open>lo -= lo%cell\<close>.
\<close>

definition centers :: "real \<Rightarrow> real \<Rightarrow> real \<Rightarrow> real list" where
  "centers cell lo hi =
     (let lo' = lo - pymod lo cell
      in map (\<lambda>i. lo' + cell * real i + cell / 2) [0 ..< nat (max 1 \<lceil>(hi - lo') / cell\<rceil>)])"

text \<open>
  The candidates that the edge from \<open>space[i-1]\<close> (here \<open>p\<close>) to \<open>space[i]\<close> (here \<open>q\<close>)
  contributes to the slice around \<open>x\<close>; \<open>v[i][1]/(v[i][0] if v[i][0] else inf)\<close> is 0 for
  an edge with no extent in X.
\<close>

definition edge_cand :: "real \<Rightarrow> real \<Rightarrow> vec3 \<Rightarrow> vec3 \<Rightarrow> real list" where
  "edge_cand cell2 x p q =
     (let vx = vnth p 0 - vnth q 0; vy = vnth p 1 - vnth q 1;
          slope = (if vx \<noteq> 0 then vy / vx else 0)
      in if (vnth p 0 - x + cell2) * (vnth q 0 - x - cell2) \<le> 0
            \<or> (vnth p 0 - x - cell2) * (vnth q 0 - x + cell2) \<le> 0
         then [vnth q 1 + slope * (x - cell2 - vnth q 0), vnth q 1 + slope * (x + cell2 - vnth q 0)]
         else [])"

text \<open>Python's \<open>min\<close> and \<open>max\<close> of a list raise \<open>ValueError\<close> on the empty list.\<close>

definition min_list :: "real list \<Rightarrow> error + real" where
  "min_list xs = (case xs of [] \<Rightarrow> Inl ValueError | y # ys \<Rightarrow> Inr (fold min ys y))"

definition max_list :: "real list \<Rightarrow> error + real" where
  "max_list xs = (case xs of [] \<Rightarrow> Inl ValueError | y # ys \<Rightarrow> Inr (fold max ys y))"

fun ypts_of :: "real \<Rightarrow> vec3 \<Rightarrow> vec3 \<Rightarrow> vec3 \<Rightarrow> real list \<Rightarrow> error + (real \<times> real) list" where
  "ypts_of cell s0 s1 s2 [] = Inr []"
| "ypts_of cell s0 s1 s2 (x # xs) =
     (let cand = edge_cand (cell / 2) x s2 s0 @ edge_cand (cell / 2) x s0 s1
                 @ edge_cand (cell / 2) x s1 s2
      in case min_list cand of
           Inl e \<Rightarrow> Inl e
         | Inr ymin \<Rightarrow>
             (case max_list cand of
                Inl e \<Rightarrow> Inl e
              | Inr ymax \<Rightarrow>
                  (case ypts_of cell s0 s1 s2 xs of
                     Inl e \<Rightarrow> Inl e
                   | Inr rest \<Rightarrow> Inr (map (\<lambda>y. (x, y)) (centers cell ymin ymax) @ rest))))"

definition zpts_of :: "real \<Rightarrow> vec3 \<Rightarrow> real \<Rightarrow> real \<Rightarrow> (real \<times> real) list \<Rightarrow> vec3 list" where
  "zpts_of cell o' dx dy ypts =
     concat (map (\<lambda>(x, y).
       (let f = (\<lambda>x y. vnth o' 2 + dx * (x - vnth o' 0) + dy * (y - vnth o' 1));
            cand = [f (x - cell / 2) (y - cell / 2), f (x + cell / 2) (y - cell / 2),
                    f (x - cell / 2) (y + cell / 2), f (x + cell / 2) (y + cell / 2)];
            zmin = fold min (tl cand) (hd cand);
            zmax = fold max (tl cand) (hd cand)
        in map (\<lambda>z. (x, y, z)) (centers cell zmin zmax))) ypts)"

definition in_box :: "vec3 \<Rightarrow> vec3 \<Rightarrow> vec3 \<Rightarrow> bool" where
  "in_box pmin pmax p =
     (vnth pmin 0 < vnth p 0 \<and> vnth pmin 1 < vnth p 1 \<and> vnth pmin 2 < vnth p 2 \<and>
      vnth p 0 < vnth pmax 0 \<and> vnth p 1 < vnth pmax 1 \<and> vnth p 2 < vnth pmax 2)"

definition emit_cell :: "real \<Rightarrow> nat \<times> nat \<times> nat \<Rightarrow> vec3 \<Rightarrow> cell" where
  "emit_cell cell order p =
     (\<lfloor>vnth p (vnth order 0) / cell\<rfloor>, \<lfloor>vnth p (vnth order 1) / cell\<rfloor>,
      \<lfloor>vnth p (vnth order 2) / cell\<rfloor>)"

definition keysfor_triangle :: "real \<Rightarrow> vec3 \<Rightarrow> vec3 \<Rightarrow> vec3 \<Rightarrow> error + cell list" where
  "keysfor_triangle cell a b c =
     (let order = axis_order (vabs (cross (vsub b a) (vsub c a)));
          s0 = permute order a; s1 = permute order b; s2 = permute order c;
          n = cross (vsub s2 s0) (vsub s0 s1)
      in if vnth n 2 = 0 then Inl ZeroDivisionError
         else
           (let dx = - vnth n 0 / vnth n 2; dy = - vnth n 1 / vnth n 2;
                pmin = vmin (vmin s0 s1) s2; pmax = vmax (vmax s0 s1) s2
            in if cell = 0 then Inl ZeroDivisionError
               else
                 (case ypts_of cell s0 s1 s2 (centers cell (vnth pmin 0) (vnth pmax 0)) of
                    Inl e \<Rightarrow> Inl e
                  | Inr ypts \<Rightarrow>
                      (let zpts = zpts_of cell s0 dx dy ypts;
                           pmin' = vsub pmin (vmod pmin cell);
                           pmax' = vsub (vadd pmax (cell, cell, cell)) (vmod pmax cell)
                       in Inr (map (emit_cell cell order) (filter (in_box pmin' pmax') zpts))))))"

text \<open>\<open>PositionMap.keysfor\<close>: the cells of a primitive, for a map of the given cell size.\<close>

definition keysfor :: "real \<Rightarrow> space \<Rightarrow> (error + cell list) option" where
  "keysfor cell sp =
     (case sp of
        Point p \<Rightarrow> Some (Inr [ivec3 (vdiv p cell)])
      | Segment a b \<Rightarrow> keysfor_segment cell a b
      | Triangle a b c \<Rightarrow> Some (keysfor_triangle cell a b c)
      | Other \<Rightarrow> Some (Inl TypeError))"

subsection \<open>PointSet\<close>

text \<open>
  The class \<open>PointSet\<close> declares the slots \<open>points\<close>, \<open>cellsize\<close> and \<open>dict\<close>.  A slot that
  was never assigned has no value (reading it raises \<open>AttributeError\<close>): \<open>ps_cellsize\<close> is
  an option.
\<close>

record PointSet =
  ps_points :: "vec3 list"
  ps_cellsize :: "real option"
  ps_dict :: "cell \<rightharpoonup> nat"

text \<open>
  \<open>PointSet.__init__(cellsize, iterable=None)\<close> assigns \<open>points\<close> and \<open>dict\<close> only; the
  argument \<open>cellsize\<close> is not stored.
\<close>

definition PointSet_init :: "real \<Rightarrow> PointSet" where
  "PointSet_init cellsize = \<lparr>ps_points = [], ps_cellsize = None, ps_dict = Map.empty\<rparr>"

definition keyfor :: "PointSet \<Rightarrow> vec3 \<Rightarrow> error + cell" where
  "keyfor ps pt =
     (case ps_cellsize ps of
        None \<Rightarrow> Inl AttributeError
      | Some cellsize \<Rightarrow> Inr (ivec3 (vdiv pt cellsize)))"

text \<open>
  \<open>PointSet.add\<close> has no \<open>return\<close> statement: the value of the call is \<open>None\<close>, given
  here with the updated set.
\<close>

definition PointSet_add :: "PointSet \<Rightarrow> vec3 \<Rightarrow> error + (pyval \<times> PointSet)" where
  "PointSet_add ps pt =
     (case keyfor ps pt of
        Inl e \<Rightarrow> Inl e
      | Inr key \<Rightarrow>
          if key \<notin> dom (ps_dict ps)
          then Inr (PyNone, ps\<lparr>ps_dict := (ps_dict ps)(key \<mapsto> length (ps_points ps)),
                                ps_points := ps_points ps @ [pt]\<rparr>)
          else Inr (PyNone, ps))"

section \<open>Merging close points (madcad/mesh.py)\<close>

definition NUMPREC :: real where
  "NUMPREC = 1 / 10 ^ 13"

definition maxnum :: "vec3 list \<Rightarrow> real" where
  "maxnum pts =
     fold (\<lambda>p m. case p of (x, y, z) \<Rightarrow>
             fold (\<lambda>v m. if \<bar>v\<bar> > m then \<bar>v\<bar> else m) [x, y, z] m) pts 0"

text \<open>\<open>Container.precision\<close> with \<open>propag = 3\<close>.\<close>

definition precision :: "vec3 list \<Rightarrow> real" where
  "precision pts = maxnum pts * NUMPREC * 2 ^ 3"

text \<open>
  \<open>Mesh.mergepoints\<close>: every face is rewritten through \<open>merges.get(f[k], f[k])\<close>; a face
  that then uses a point twice is popped together with the track at the same position
  (\<open>tracks.pop(i)\<close> raises \<open>IndexError\<close> when the track list is too short).
\<close>

definition merges_get :: "('i \<rightharpoonup> 'i) \<Rightarrow> 'i \<Rightarrow> 'i" where
  "merges_get merges k = (case merges k of None \<Rightarrow> k | Some v \<Rightarrow> v)"

fun mergepoints_loop ::
  "('i \<rightharpoonup> 'i) \<Rightarrow> 'i face list \<Rightarrow> int list \<Rightarrow> error + ('i face list \<times> int list)" where
  "mergepoints_loop merges [] ts = Inr ([], ts)"
| "mergepoints_loop merges ((a, b, c) # fs) ts =
     (let f = (merges_get merges a, merges_get merges b, merges_get merges c)
      in if fst f = fst (snd f) \<or> fst (snd f) = snd (snd f) \<or> snd (snd f) = fst f
         then (case ts of
                 [] \<Rightarrow> Inl IndexError
               | t # ts' \<Rightarrow> mergepoints_loop merges fs ts')
         else (case mergepoints_loop merges fs (tl ts) of
                 Inl e \<Rightarrow> Inl e
               | Inr (fs', ts') \<Rightarrow> Inr (f # fs', (case ts of [] \<Rightarrow> ts' | t # ts0 \<Rightarrow> t # ts'))))"

definition mergepoints :: "('i \<rightharpoonup> 'i) \<Rightarrow> ('i, 'g) Mesh \<Rightarrow> error + ('i, 'g) Mesh" where
  "mergepoints merges m =
     (case mergepoints_loop merges (faces m) (tracks m) of
        Inl e \<Rightarrow> Inl e
      | Inr (fs, ts) \<Rightarrow> Inr (m\<lparr>faces := fs, tracks := ts\<rparr>))"

text \<open>\<open>Web.mergepoints\<close>: the same for the edges of a web.\<close>

record ('i, 'g) Web =
  web_points :: "vec3 list"
  web_edges :: "'i edge list"
  web_tracks :: "int list"
  web_groups :: "'g list"

fun Web_mergepoints_loop ::
  "('i \<rightharpoonup> 'i) \<Rightarrow> 'i edge list \<Rightarrow> int list \<Rightarrow> error + ('i edge list \<times> int list)" where
  "Web_mergepoints_loop merges [] ts = Inr ([], ts)"
| "Web_mergepoints_loop merges ((a, b) # es) ts =
     (let e = (merges_get merges a, merges_get merges b)
      in if fst e = snd e
         then (case ts of
                 [] \<Rightarrow> Inl IndexError
               | t # ts' \<Rightarrow> Web_mergepoints_loop merges es ts')
         else (case Web_mergepoints_loop merges es (tl ts) of
                 Inl err \<Rightarrow> Inl err
               | Inr (es', ts') \<Rightarrow> Inr (e # es', (case ts of [] \<Rightarrow> ts' | t # ts0 \<Rightarrow> t # ts'))))"

definition Web_mergepoints :: "('i \<rightharpoonup> 'i) \<Rightarrow> ('i, 'g) Web \<Rightarrow> error + ('i, 'g) Web" where
  "Web_mergepoints merges w =
     (case Web_mergepoints_loop merges (web_edges w) (web_tracks w) of
        Inl e \<Rightarrow> Inl e
      | Inr (es, ts) \<Rightarrow> Inr (w\<lparr>web_edges := es, web_tracks := ts\<rparr>))"

text \<open>
  Modelled from the spec: the class \<open>PointSet\<close> of the module \<open>hashing\<close> of the package, which
  \<open>mesh.py\<close> imports by \<open>from . import hashing\<close> and which is not among the sources.  The
  spec: a mapping from integer cell-coordinate triples to a point index into an internal
  growing point buffer; \<open>add(p)\<close>: cell \<open>k = floor(p / cellsize)\<close>; if \<open>k\<close> is already present,
  return the stored index and do not insert; otherwise append \<open>p\<close> to the buffer, record the
  new index under \<open>k\<close>, return it.  \<open>mergeclose\<close> reads the buffer as the attribute \<open>points\<close>.
\<close>

record hashing_PointSet =
  hp_points :: "vec3 list"
  hp_cellsize :: real
  hp_dict :: "cell \<rightharpoonup> nat"

definition hashing_PointSet_init :: "real \<Rightarrow> hashing_PointSet" where
  "hashing_PointSet_init cellsize = \<lparr>hp_points = [], hp_cellsize = cellsize, hp_dict = Map.empty\<rparr>"

fun floor_cell :: "real \<Rightarrow> vec3 \<Rightarrow> cell" where
  "floor_cell cellsize (x, y, z) = (\<lfloor>x / cellsize\<rfloor>, \<lfloor>y / cellsize\<rfloor>, \<lfloor>z / cellsize\<rfloor>)"

definition hashing_PointSet_add :: "hashing_PointSet \<Rightarrow> vec3 \<Rightarrow> nat \<times> hashing_PointSet" where
  "hashing_PointSet_add ps p =
     (let k = floor_cell (hp_cellsize ps) p
      in case hp_dict ps k of
           Some i \<Rightarrow> (i, ps)
         | None \<Rightarrow>
             (length (hp_points ps),
              ps\<lparr>hp_points := hp_points ps @ [p],
                 hp_dict := (hp_dict ps)(k \<mapsto> length (hp_points ps))\<rparr>))"

text \<open>
  \<open>Container.mergeclose(limit=None, start=0)\<close>: the loop over the points, which fills the
  set and the dictionary \<open>merges\<close>, is common to meshes and webs; then \<open>self.mergepoints\<close> is
  the method of the class, and the buffer of the set becomes the buffer of the container.
\<close>

fun mergeclose_loop ::
  "vec3 list \<Rightarrow> nat list \<Rightarrow> hashing_PointSet \<Rightarrow> (int \<rightharpoonup> int) \<Rightarrow>
   hashing_PointSet \<times> (int \<rightharpoonup> int)" where
  "mergeclose_loop pts [] ps merges = (ps, merges)"
| "mergeclose_loop pts (i # is) ps merges =
     (case hashing_PointSet_add ps (pts ! i) of
        (used, ps') \<Rightarrow>
          mergeclose_loop pts is ps'
            (if used \<noteq> i then merges(int i \<mapsto> int used) else merges))"

definition mergeclose_merges ::
  "real option \<Rightarrow> nat \<Rightarrow> vec3 list \<Rightarrow> hashing_PointSet \<times> (int \<rightharpoonup> int)" where
  "mergeclose_merges limit start pts =
     (let limit' = (case limit of None \<Rightarrow> precision pts | Some l \<Rightarrow> l)
      in mergeclose_loop pts [start ..< length pts] (hashing_PointSet_init limit') Map.empty)"

definition mergeclose ::
  "real option \<Rightarrow> nat \<Rightarrow> (int, 'g) Mesh \<Rightarrow> error + ((int \<rightharpoonup> int) \<times> (int, 'g) Mesh)" where
  "mergeclose limit start m =
     (case mergeclose_merges limit start (points m) of
        (ps, merges) \<Rightarrow>
          (case mergepoints merges m of
             Inl e \<Rightarrow> Inl e
           | Inr m' \<Rightarrow> Inr (merges, m'\<lparr>points := hp_points ps\<rparr>)))"

definition Web_mergeclose ::
  "real option \<Rightarrow> nat \<Rightarrow> (int, 'g) Web \<Rightarrow> error + ((int \<rightharpoonup> int) \<times> (int, 'g) Web)" where
  "Web_mergeclose limit start w =
     (case mergeclose_merges limit start (web_points w) of
        (ps, merges) \<Rightarrow>
          (case Web_mergepoints merges w of
             Inl e \<Rightarrow> Inl e
           | Inr w' \<Rightarrow> Inr (merges, w'\<lparr>web_points := hp_points ps\<rparr>)))"

section \<open>Wires and triangulation (madcad/mesh.py, madcad/triangulation.py)\<close>

type_synonym vec2 = "real \<times> real"

fun sub2 :: "vec2 \<Rightarrow> vec2 \<Rightarrow> vec2" where
  "sub2 (a, b) (x, y) = (a - x, b - y)"

fun perpdot :: "vec2 \<Rightarrow> vec2 \<Rightarrow> real" where
  "perpdot (a0, a1) (b0, b1) = - a1 * b0 + a0 * b1"

fun length_2 :: "vec2 \<Rightarrow> real" where
  "length_2 (x, y) = sqrt (x * x + y * y)"

text \<open>
  The class \<open>Wire\<close>: a point buffer and the indices of the successive points of the line,
  with optional tracks and the groups.
\<close>

record 'g Wire =
  w_points :: "vec3 list"
  w_indices :: "int list"
  w_tracks :: "int list option"
  w_groups :: "'g list"

text \<open>\<open>Wire.__getitem__\<close> with an integer: \<open>self.points[self.indices[i]]\<close>.\<close>

definition wire_get :: "'g Wire \<Rightarrow> int \<Rightarrow> error + vec3" where
  "wire_get w i =
     (case pyindex (w_indices w) i of
        Inl e \<Rightarrow> Inl e
      | Inr k \<Rightarrow> pyindex (w_points w) k)"

text \<open>\<open>list(wire)\<close>: the points of the wire, through \<open>Wire.__iter__\<close>.\<close>

fun wire_points :: "vec3 list \<Rightarrow> int list \<Rightarrow> error + vec3 list" where
  "wire_points pts [] = Inr []"
| "wire_points pts (i # is) =
     (case pyindex pts i of
        Inl e \<Rightarrow> Inl e
      | Inr p \<Rightarrow> (case wire_points pts is of Inl e \<Rightarrow> Inl e | Inr ps \<Rightarrow> Inr (p # ps)))"

text \<open>
  The argument \<open>normal\<close> of \<open>triangulation_outline\<close>, \<open>planeproject\<close> and \<open>guessbase\<close>:
  \<open>None\<close>, a vector, or (as \<open>triangulation\<close> passes it) a float.
\<close>

datatype normal_arg = NoNormal | NormalVec vec3 | NormalFloat real

text \<open>The test \<open>if normal:\<close>. A glm vector has three components and counts as true.\<close>

fun normal_given :: "normal_arg \<Rightarrow> bool" where
  "normal_given NoNormal = False"
| "normal_given (NormalVec v) = True"
| "normal_given (NormalFloat x) = (x \<noteq> 0)"

definition project :: "vec3 \<Rightarrow> vec3 \<Rightarrow> vec3" where
  "project v dir = vscale (dot v dir) dir"

definition noproject :: "vec3 \<Rightarrow> vec3 \<Rightarrow> vec3" where
  "noproject x dir = vsub x (project x dir)"

text \<open>
  \<open>dirbase(dir)\<close> with the default \<open>align = vec3(1,0,0)\<close>.  With a float for \<open>dir\<close> the glm
  functions \<open>dot\<close> and \<open>cross\<close> refuse their arguments: \<open>TypeError\<close>.
\<close>

definition dirbase :: "normal_arg \<Rightarrow> error + (vec3 \<times> vec3 \<times> vec3)" where
  "dirbase normal =
     (case normal of
        NormalVec dir \<Rightarrow>
          (let x = vsub (1, 0, 0) (project (1, 0, 0) dir);
               x = (if vlength x < NUMPREC then vsub (0, - 1, 0) (project (0, - 1, 0) dir) else x);
               x = normalize x
           in Inr (x, cross dir x, dir))
      | _ \<Rightarrow> Inl TypeError)"

definition maxabs :: "vec3 \<Rightarrow> real" where
  "maxabs p = (case p of (x, y, z) \<Rightarrow> max (max \<bar>x\<bar> \<bar>y\<bar>) \<bar>z\<bar>)"

text \<open>
  \<open>guessbase\<close>: the two loops that read the iterator of the wire until a point far enough
  from the first one, then a point off that direction, is found; the end of the iterator
  (\<open>StopIteration\<close>) becomes \<open>ValueError\<close>.  \<open>thres\<close> is \<open>10*NUMPREC\<close>.
\<close>

definition thres :: real where
  "thres = 10 * NUMPREC"

fun guess_x :: "vec3 list \<Rightarrow> vec3 \<Rightarrow> real \<Rightarrow> int list \<Rightarrow> error + (vec3 \<times> int list)" where
  "guess_x pts o' ol [] = Inl ValueError"
| "guess_x pts o' ol (i # is) =
     (case pyindex pts i of
        Inl e \<Rightarrow> Inl e
      | Inr p \<Rightarrow>
          if max (maxabs p) ol = 0 then Inl ZeroDivisionError
          else if dot (vsub p o') (vsub p o') / max (maxabs p) ol < thres then guess_x pts o' ol is
          else Inr (vsub p o', is))"

fun guess_y :: "vec3 list \<Rightarrow> vec3 \<Rightarrow> vec3 \<Rightarrow> int list \<Rightarrow> error + vec3" where
  "guess_y pts o' x [] = Inl ValueError"
| "guess_y pts o' x (i # is) =
     (case pyindex pts i of
        Inl e \<Rightarrow> Inl e
      | Inr p \<Rightarrow>
          if vlength (cross (vsub p o') x) < thres then guess_y pts o' x is
          else Inr (vsub p o'))"

definition guessbase :: "'g Wire \<Rightarrow> normal_arg \<Rightarrow> error + (vec3 \<times> vec3 \<times> vec3)" where
  "guessbase w normal =
     (if normal_given normal then dirbase normal
      else
        (case w_indices w of
           [] \<Rightarrow> Inl ValueError
         | i0 # rest \<Rightarrow>
             (case pyindex (w_points w) i0 of
                Inl e \<Rightarrow> Inl e
              | Inr o' \<Rightarrow>
                  (case guess_x (w_points w) o' (maxabs o') rest of
                     Inl e \<Rightarrow> Inl e
                   | Inr (x, rest') \<Rightarrow>
                       (case guess_y (w_points w) o' (normalize x) rest' of
                          Inl e \<Rightarrow> Inl e
                        | Inr y \<Rightarrow>
                            Inr (normalize x, normalize (noproject y (normalize x)),
                                 cross (normalize x) (normalize (noproject y (normalize x)))))))))"

text \<open>Python's \<open>min(range(n), key=...)\<close>: the first index whose key is minimal.\<close>

fun argmin_from :: "real list \<Rightarrow> nat \<Rightarrow> nat \<Rightarrow> real \<Rightarrow> nat" where
  "argmin_from [] k best bestv = best"
| "argmin_from (v # vs) k best bestv =
     (if v < bestv then argmin_from vs (Suc k) k v else argmin_from vs (Suc k) best bestv)"

definition argmin :: "real list \<Rightarrow> error + nat" where
  "argmin vs = (case vs of [] \<Rightarrow> Inl ValueError | v # rest \<Rightarrow> Inr (argmin_from rest 1 0 v))"

definition project2 :: "vec3 \<Rightarrow> vec3 \<Rightarrow> vec3 \<Rightarrow> vec2" where
  "project2 x y p = (dot p x, dot p y)"

text \<open>
  \<open>planeproject\<close>, in two steps: the base vectors \<open>x\<close> and \<open>y\<close> of the plane (\<open>y\<close> is negated
  when the loop does not turn positively at the point of least \<open>x\<close>), then the projection
  of every point of the wire.
\<close>

definition planebase :: "'g Wire \<Rightarrow> normal_arg \<Rightarrow> error + (vec3 \<times> vec3)" where
  "planebase w normal =
     (case guessbase w normal of
        Inl e \<Rightarrow> Inl e
      | Inr (x, y, z) \<Rightarrow>
          (case wire_points (w_points w) (w_indices w) of
             Inl e \<Rightarrow> Inl e
           | Inr ps \<Rightarrow>
               (case argmin (map (\<lambda>p. dot p x) ps) of
                  Inl e \<Rightarrow> Inl e
                | Inr i \<Rightarrow>
                    (let l = length ps;
                         a = ps ! i; b = ps ! ((i + 1) mod l); c = ps ! ((i + l - 1) mod l)
                     in if dot z (cross (vsub b a) (vsub c a)) < 0
                        then Inr (x, vscale (- 1) y) else Inr (x, y)))))"

definition planeproject :: "'g Wire \<Rightarrow> normal_arg \<Rightarrow> error + vec2 list" where
  "planeproject w normal =
     (case planebase w normal of
        Inl e \<Rightarrow> Inl e
      | Inr (x, y) \<Rightarrow>
          (case wire_points (w_points w) (w_indices w) of
             Inl e \<Rightarrow> Inl e
           | Inr ps \<Rightarrow> Inr (map (project2 x y) ps)))"

subsection \<open>Ear clipping\<close>

text \<open>
  \<open>aesthetic(u,v)\<close>: a Python division of floats, which raises \<open>ZeroDivisionError\<close> when the
  perimeter is zero.
\<close>

definition aesthetic :: "vec2 \<Rightarrow> vec2 \<Rightarrow> error + real" where
  "aesthetic u v =
     (if (length_2 u + length_2 v + length_2 (sub2 u v)) ^ 2 = 0 then Inl ZeroDivisionError
      else Inr (perpdot u v / (length_2 u + length_2 v + length_2 (sub2 u v)) ^ 2))"

text \<open>
  The test \<open>0 <= uc and 0 <= vc and uc+vc <= 1\<close> on \<open>uc,vc = inverse(dmat2(u,v)) * (p-o)\<close>.
  When the matrix is singular, glm's inverse has infinite or \<open>nan\<close> entries and the test is
  false.
\<close>

definition inside :: "vec2 \<Rightarrow> vec2 \<Rightarrow> vec2 \<Rightarrow> bool" where
  "inside u v d =
     (case u of (u0, u1) \<Rightarrow> case v of (v0, v1) \<Rightarrow> case d of (d0, d1) \<Rightarrow>
        (let det = u0 * v1 - v0 * u1;
             uc = (v1 * d0 - v0 * d1) / det;
             vc = (u0 * d1 - u1 * d0) / det
         in det \<noteq> 0 \<and> 0 \<le> uc \<and> 0 \<le> vc \<and> uc + vc \<le> 1))"

text \<open>\<open>score(i)\<close> for the current list of projected points.\<close>

definition score :: "vec2 list \<Rightarrow> nat \<Rightarrow> error + xreal" where
  "score proj i =
     (let l = length proj;
          u = sub2 (proj ! ((i + 1) mod l)) (proj ! i);
          v = sub2 (proj ! ((i + l - 1) mod l)) (proj ! i)
      in case aesthetic u v of
           Inl e \<Rightarrow> Inl e
         | Inr sc \<Rightarrow>
             if sc < 0 then Inr (Fin sc)
             else if \<exists>j \<in> set [0 ..< l].
                       j \<notin> {(i + l - 1) mod l, i, (i + 1) mod l} \<and>
                       inside u v (sub2 (proj ! j) (proj ! i))
                  then Inr NegInf
                  else Inr (Fin sc))"

fun scores_of :: "vec2 list \<Rightarrow> nat list \<Rightarrow> error + xreal list" where
  "scores_of proj [] = Inr []"
| "scores_of proj (i # is) =
     (case score proj i of
        Inl e \<Rightarrow> Inl e
      | Inr s \<Rightarrow> (case scores_of proj is of Inl e \<Rightarrow> Inl e | Inr ss \<Rightarrow> Inr (s # ss)))"

text \<open>Python's \<open>max(range(l), key=...)\<close>: the first index whose key is maximal.\<close>

fun argmax_from :: "xreal list \<Rightarrow> nat \<Rightarrow> nat \<Rightarrow> xreal \<Rightarrow> nat" where
  "argmax_from [] k best bestv = best"
| "argmax_from (v # vs) k best bestv =
     (if xgt v bestv then argmax_from vs (Suc k) k v else argmax_from vs (Suc k) best bestv)"

definition argmax :: "xreal list \<Rightarrow> nat" where
  "argmax vs = argmax_from (tl vs) 1 0 (hd vs)"

lemma argmax_from_bound: "best < k \<Longrightarrow> argmax_from vs k best bestv < k + length vs"
proof (induction vs arbitrary: k best bestv)
  case Nil
  then show ?case by simp
next
  case (Cons v vs)
  have "argmax_from vs (Suc k) k v < Suc k + length vs" by (rule Cons.IH) simp
  moreover have "argmax_from vs (Suc k) best bestv < Suc k + length vs"
    using Cons.prems by (intro Cons.IH) simp
  ultimately show ?case by simp
qed

lemma argmax_bound: "vs \<noteq> [] \<Longrightarrow> argmax vs < length vs"
  using argmax_from_bound[of 0 1 "tl vs" "hd vs"] by (cases vs) (simp_all add: argmax_def)

lemma argmax_take_bound: "0 < l \<Longrightarrow> argmax (take l scores) < l"
proof (cases "take l scores = []")
  case True
  assume "0 < l"
  with True show ?thesis by (simp add: argmax_def)
next
  case False
  then have "argmax (take l scores) < length (take l scores)" by (rule argmax_bound)
  then show ?thesis by simp
qed

text \<open>Python's \<open>xs.pop(i)\<close>, for an index in range.\<close>

definition pop_at :: "nat \<Rightarrow> 'a list \<Rightarrow> 'a list" where
  "pop_at i xs = take i xs @ drop (Suc i) xs"

text \<open>
  The loop \<open>while len(hole) > 2\<close>.  Besides the triangles it counts how many times the
  warning \<open>no more feasible triangles\<close> is printed (the best score is below \<open>-NUMPREC\<close>).
\<close>

function clip ::
  "int list \<Rightarrow> vec2 list \<Rightarrow> xreal list \<Rightarrow> int face list \<Rightarrow> nat \<Rightarrow> error + (int face list \<times> nat)" where
  "clip hole proj scores triangles warnings =
     (if length hole > 2 then
        (let l = length hole;
             i = argmax (take l scores);
             warnings' = (if xgt (Fin (- NUMPREC)) (scores ! i) then Suc warnings else warnings);
             triangles' = triangles @ [(hole ! ((i + l - 1) mod l), hole ! i, hole ! ((i + 1) mod l))];
             hole' = pop_at i hole;
             proj' = pop_at i proj;
             scores' = pop_at i scores;
             l' = l - 1
         in case score proj' ((i + l' - 1) mod l') of
              Inl e \<Rightarrow> Inl e
            | Inr s1 \<Rightarrow>
                (case score proj' (i mod l') of
                   Inl e \<Rightarrow> Inl e
                 | Inr s2 \<Rightarrow>
                     clip hole' proj' ((scores'[(i + l' - 1) mod l' := s1])[i mod l' := s2])
                       triangles' warnings'))
      else Inr (triangles, warnings))"
  by pat_completeness auto
termination
proof (relation "measure (\<lambda>(hole, proj, scores, triangles, warnings). length hole)", goal_cases)
  case 1
  show ?case by simp
next
  case (2 hole proj scores triangles warnings l i warnings' triangles' hole' proj' scores' l' s1 s2)
  then have l: "2 < length hole" by simp
  then have "0 < length hole" by linarith
  then have "argmax (take (length hole) scores) < length hole"
    by (rule argmax_take_bound)
  with l 2 show ?case by (simp add: pop_at_def)
qed

declare clip.simps [simp del]

text \<open>
  \<open>Mesh(points, faces)\<close>: one track 0 per face, and one group \<open>None\<close> when there is a face.
\<close>

definition Mesh_of :: "vec3 list \<Rightarrow> int face list \<Rightarrow> (int, 'g option) Mesh" where
  "Mesh_of pts fs =
     \<lparr>points = pts, faces = fs, tracks = replicate (length fs) 0,
      groups = (if fs = [] then [] else [None])\<rparr>"

text \<open>
  \<open>triangulation_outline\<close>, with the number of warnings printed.  A \<open>ValueError\<close> of
  \<open>planeproject\<close> is caught and gives the empty mesh.
\<close>

definition triangulation_outline_warn ::
  "'g Wire \<Rightarrow> normal_arg \<Rightarrow> error + ((int, 'h option) Mesh \<times> nat)" where
  "triangulation_outline_warn outline normal =
     (case planeproject outline normal of
        Inl ValueError \<Rightarrow> Inr (Mesh_of [] [], 0)
      | Inl e \<Rightarrow> Inl e
      | Inr proj \<Rightarrow>
          (case scores_of proj [0 ..< length (w_indices outline)] of
             Inl e \<Rightarrow> Inl e
           | Inr scores \<Rightarrow>
               (case clip (w_indices outline) proj scores [] 0 of
                  Inl e \<Rightarrow> Inl e
                | Inr (triangles, warnings) \<Rightarrow>
                    Inr (Mesh_of (w_points outline) triangles, warnings))))"

definition triangulation_outline ::
  "'g Wire \<Rightarrow> normal_arg \<Rightarrow> error + (int, 'h option) Mesh" where
  "triangulation_outline outline normal =
     (case triangulation_outline_warn outline normal of
        Inl e \<Rightarrow> Inl e
      | Inr (m, warnings) \<Rightarrow> Inr m)"

text \<open>
  \<open>triangulation(outline, prec)\<close>: \<open>prec\<close> is passed to \<open>triangulation_outline\<close> in the
  position of \<open>normal\<close>; a \<open>MeshError\<close> is caught and answered by
  \<open>triangulation_skeleton(outline, prec)\<close>, which is a parameter here.
\<close>

definition triangulation ::
  "('g Wire \<Rightarrow> real \<Rightarrow> error + (int, 'h option) Mesh) \<Rightarrow> 'g Wire \<Rightarrow> real \<Rightarrow>
   error + (int, 'h option) Mesh" where
  "triangulation triangulation_skeleton outline prec =
     (case triangulation_outline outline (NormalFloat prec) of
        Inl (MeshError msg) \<Rightarrow> triangulation_skeleton outline prec
      | Inl e \<Rightarrow> Inl e
      | Inr m \<Rightarrow> Inr m)"

text \<open>\<open>Mesh.outlines_unoriented\<close>.\<close>

definition toggle :: "'a \<Rightarrow> 'a set \<Rightarrow> 'a set" where
  "toggle e edges = (if e \<in> edges then edges - {e} else insert e edges)"

definition outlines_unoriented :: "(int, 'g) Mesh \<Rightarrow> int edge set" where
  "outlines_unoriented m = fold toggle (map edgekey (edges_oriented m)) {}"

lemma swap_edge_swap [simp]: "swap_edge (swap_edge e) = e"
  by (cases e) simp

lemma swap_edge_eq_iff: "swap_edge x = y \<longleftrightarrow> x = swap_edge y"
  by (cases x; cases y) auto

definition nondeg :: "'i edge \<Rightarrow> bool" where
  "nondeg e = (fst e \<noteq> snd e)"

lemma nondeg_swap_ne: "nondeg e \<Longrightarrow> swap_edge e \<noteq> e"
  by (cases e) (simp add: nondeg_def)

definition boundary_of :: "'i edge set \<Rightarrow> 'i edge set" where
  "boundary_of P = {swap_edge e | e. e \<in> P \<and> swap_edge e \<notin> P}"

lemma outline_step_boundary:
  assumes "e \<notin> P" "nondeg e"
  shows "outline_step e (boundary_of P) = boundary_of (insert e P)"
proof (cases "e \<in> boundary_of P")
  case True
  then have sw: "swap_edge e \<in> P"
    by (cases e) (auto simp: boundary_of_def)
  have "boundary_of P - {e} = boundary_of (insert e P)"
    using assms sw by (cases e) (auto simp: boundary_of_def)
  with True show ?thesis by (simp add: outline_step_def)
next
  case False
  then have sw: "swap_edge e \<notin> P"
    using assms(1) by (cases e) (force simp: boundary_of_def)
  have "insert (swap_edge e) (boundary_of P) = boundary_of (insert e P)"
    using assms sw nondeg_swap_ne[OF assms(2)]
    by (cases e) (auto simp: boundary_of_def)
  with False show ?thesis by (simp add: outline_step_def)
qed

lemma fold_outline_boundary:
  "distinct es \<Longrightarrow> set es \<inter> P = {} \<Longrightarrow> \<forall>e\<in>set es. nondeg e \<Longrightarrow>
   fold outline_step es (boundary_of P) = boundary_of (P \<union> set es)"
proof (induction es arbitrary: P)
  case Nil
  then show ?case by simp
next
  case (Cons e es)
  have "outline_step e (boundary_of P) = boundary_of (insert e P)"
    using Cons.prems by (intro outline_step_boundary) auto
  moreover have "fold outline_step es (boundary_of (insert e P)) = boundary_of (insert e P \<union> set es)"
    using Cons.prems by (intro Cons.IH) auto
  ultimately show ?case by simp
qed

lemma issurface_scan_distinct:
  "issurface_scan es R \<longleftrightarrow> distinct es \<and> set es \<inter> R = {}"
  by (induction es arbitrary: R) auto

lemma issurface_distinct: "issurface m \<longleftrightarrow> distinct (edges_oriented m)"
  by (simp add: issurface_def issurface_scan_distinct)


lemma outline_step_swap:
  "outline_step (swap_edge e) (swap_edge ` S) = swap_edge ` outline_step e S"
proof -
  have inj: "inj swap_edge" by (rule inj_on_inverseI[where g = swap_edge]) simp
  have mem: "swap_edge e \<in> swap_edge ` S \<longleftrightarrow> e \<in> S"
    using inj by (auto dest: injD)
  show ?thesis
  proof (cases "e \<in> S")
    case True
    have "swap_edge ` (S - {e}) = swap_edge ` S - swap_edge ` {e}"
      using inj by (rule image_set_diff)
    with True show ?thesis by (simp add: outline_step_def mem)
  next
    case False
    then show ?thesis by (simp add: outline_step_def mem)
  qed
qed

lemma fold_outline_step_swap:
  "fold outline_step (map swap_edge es) (swap_edge ` S) = swap_edge ` fold outline_step es S"
  by (induction es arbitrary: S) (simp_all add: outline_step_swap)

lemma outline_step_commute:
  assumes "e1 \<noteq> e2" "e1 \<noteq> swap_edge e2"
  shows "outline_step e1 (outline_step e2 S) = outline_step e2 (outline_step e1 S)"
  using assms by (cases e1; cases e2) (auto simp: outline_step_def)

definition proper_face :: "'i face \<Rightarrow> bool" where
  "proper_face f = (case f of (a, b, c) \<Rightarrow> a \<noteq> b \<and> b \<noteq> c \<and> c \<noteq> a)"

lemma fold_face_edges_flip:
  assumes "proper_face f"
  shows "fold outline_step (face_edges (flip_face f)) S
       = fold outline_step (map swap_edge (face_edges f)) S"
proof -
  obtain a b c where f: "f = (a, b, c)" by (cases f)
  have d: "a \<noteq> b" "b \<noteq> c" "c \<noteq> a" using assms by (auto simp: f proper_face_def)
  have 1: "outline_step (c, b) (outline_step (a, c) S) = outline_step (a, c) (outline_step (c, b) S)"
    using d by (intro outline_step_commute) auto
  have 2: "outline_step (b, a) (outline_step (a, c) T) = outline_step (a, c) (outline_step (b, a) T)" for T
    using d by (intro outline_step_commute) auto
  have 3: "outline_step (b, a) (outline_step (c, b) T) = outline_step (c, b) (outline_step (b, a) T)" for T
    using d by (intro outline_step_commute) auto
  show ?thesis by (simp add: f 1 2 3)
qed

lemma fold_outline_flip:
  "\<forall>f\<in>set fs. proper_face f \<Longrightarrow>
   fold outline_step (concat (map face_edges (map flip_face fs))) S
   = fold outline_step (map swap_edge (concat (map face_edges fs))) S"
proof (induction fs arbitrary: S)
  case Nil
  then show ?case by simp
next
  case (Cons f fs)
  have "fold outline_step (face_edges (flip_face f)) S
      = fold outline_step (map swap_edge (face_edges f)) S"
    using Cons.prems by (intro fold_face_edges_flip) simp
  then show ?case using Cons by (simp add: map_concat)
qed

lemma outlines_oriented_flip:
  assumes "\<forall>f\<in>set (faces m). proper_face f"
  shows "outlines_oriented (flip m) = swap_edge ` outlines_oriented m"
proof -
  have "outlines_oriented (flip m)
      = fold outline_step (map swap_edge (edges_oriented m)) (swap_edge ` {})"
    using fold_outline_flip[OF assms] by (simp add: outlines_oriented_def flip_def edges_oriented_def)
  then show ?thesis
    by (simp only: fold_outline_step_swap outlines_oriented_def)
qed

definition antisym_edges :: "'i edge set \<Rightarrow> bool" where
  "antisym_edges S = (\<forall>e. e \<in> S \<longrightarrow> swap_edge e \<notin> S)"

lemma outline_step_antisym:
  "nondeg e \<Longrightarrow> antisym_edges S \<Longrightarrow> antisym_edges (outline_step e S)"
  by (cases e) (auto simp: nondeg_def antisym_edges_def outline_step_def)

lemma fold_outline_antisym:
  "\<forall>e\<in>set es. nondeg e \<Longrightarrow> antisym_edges S \<Longrightarrow> antisym_edges (fold outline_step es S)"
  by (induction es arbitrary: S) (simp_all add: outline_step_antisym)

lemma check_faces_proper:
  "check_faces l fs = Inr () \<Longrightarrow> \<forall>f\<in>set fs. proper_face f"
  by (induction fs) (auto simp: proper_face_def split: sum.splits if_splits)

lemma check_proper: "check m = Inr () \<Longrightarrow> \<forall>f\<in>set (faces m). proper_face f"
  by (auto simp: check_def split: sum.splits if_splits dest: check_faces_proper)

lemma proper_face_nondeg: "proper_face f \<Longrightarrow> e \<in> set (face_edges f) \<Longrightarrow> nondeg e"
  by (cases f) (auto simp: proper_face_def nondeg_def)

lemma proper_edges_nondeg:
  "\<forall>f\<in>set (faces m). proper_face f \<Longrightarrow> \<forall>e\<in>set (edges_oriented m). nondeg e"
  by (auto simp: edges_oriented_def dest: proper_face_nondeg)

definition two_triangles :: "(int, unit) Mesh" where
  "two_triangles = \<lparr>points = [(0,0,0), (1,0,0), (0,1,0), (1,-1,0)],
     faces = [(0,1,2), (1,0,3)], tracks = [0,0], groups = [()]\<rparr>"

text \<open>
  Claim C7, as amended.  For a mesh that passes \<open>check\<close>, \<open>outlines_oriented m\<close> and
  \<open>outlines_oriented (flip m)\<close> are disjoint; when the mesh is moreover a surface
  (\<open>issurface\<close>: no oriented edge is used twice), their union is the set of the oriented
  edges, in both directions, of the edges that a face traverses in one direction while no
  face traverses them in the other.  An edge traversed in both directions (shared by two
  faces) is in neither outline.
\<close>

theorem outlines_duality_amended:
  assumes "check m = Inr ()"
  shows "outlines_oriented m \<inter> outlines_oriented (flip m) = {} \<and>
         (issurface m \<longrightarrow>
            outlines_oriented m \<union> outlines_oriented (flip m)
            = {e. (e \<in> set (edges_oriented m) \<or> swap_edge e \<in> set (edges_oriented m)) \<and>
                  \<not> (e \<in> set (edges_oriented m) \<and> swap_edge e \<in> set (edges_oriented m))})"
proof -
  let ?E = "set (edges_oriented m)"
  have pf: "\<forall>f\<in>set (faces m). proper_face f" using assms by (rule check_proper)
  have nd: "\<forall>e\<in>?E. nondeg e" using pf by (rule proper_edges_nondeg)
  have fl: "outlines_oriented (flip m) = swap_edge ` outlines_oriented m"
    using pf by (rule outlines_oriented_flip)
  have "antisym_edges (outlines_oriented m)"
    unfolding outlines_oriented_def
    using nd by (intro fold_outline_antisym) (simp_all add: antisym_edges_def)
  then have disj: "outlines_oriented m \<inter> outlines_oriented (flip m) = {}"
    unfolding fl antisym_edges_def by (auto simp: swap_edge_eq_iff)
  have "outlines_oriented m \<union> outlines_oriented (flip m)
        = {e. (e \<in> ?E \<or> swap_edge e \<in> ?E) \<and> \<not> (e \<in> ?E \<and> swap_edge e \<in> ?E)}"
    if "issurface m"
  proof -
    have "distinct (edges_oriented m)" using that by (simp add: issurface_distinct)
    then have "fold outline_step (edges_oriented m) (boundary_of {}) = boundary_of ({} \<union> ?E)"
      using nd by (intro fold_outline_boundary) simp_all
    then have out: "outlines_oriented m = boundary_of ?E"
      by (simp add: outlines_oriented_def boundary_of_def)
    show ?thesis
      unfolding fl out boundary_of_def
      by (auto simp: image_iff swap_edge_eq_iff)
  qed
  with disj show ?thesis by blast
qed

lemma tt_out: "outlines_oriented two_triangles = {(2,1), (0,2), (3,0), (1,3)}"
  by (simp add: two_triangles_def outlines_oriented_def edges_oriented_def outline_step_def) auto

lemma tt_out_flip: "outlines_oriented (flip two_triangles) = {(1,2), (2,0), (0,3), (3,1)}"
  by (simp add: two_triangles_def outlines_oriented_def edges_oriented_def outline_step_def flip_def) auto

lemma check_two_triangles: "check two_triangles = Inr ()"
  by (simp add: two_triangles_def check_def max_default_def)

lemma issurface_two_triangles: "issurface two_triangles"
  by (simp add: two_triangles_def issurface_def edges_oriented_def)

theorem outlines_duality_witness:
  "check two_triangles = Inr () \<and> issurface two_triangles \<and>
   outlines_oriented two_triangles \<inter> outlines_oriented (flip two_triangles) = {} \<and>
   outlines_oriented two_triangles \<union> outlines_oriented (flip two_triangles)
     = {e. (e \<in> set (edges_oriented two_triangles) \<or> swap_edge e \<in> set (edges_oriented two_triangles)) \<and>
           \<not> (e \<in> set (edges_oriented two_triangles) \<and> swap_edge e \<in> set (edges_oriented two_triangles))}"
  using outlines_duality_amended[OF check_two_triangles] check_two_triangles issurface_two_triangles
  by blast

text \<open>
  Claim C7 as stated fails on two triangles that share the edge between points 0 and 1:
  the union of the two outlines has eight oriented edges and contains neither \<open>(0,1)\<close> nor
  \<open>(1,0)\<close>, so it is not the set of all oriented edges, whether that set is read as the
  oriented edges of the mesh or as those of the mesh and of its flipped copy.
\<close>

theorem outlines_duality_counterexample:
  "check two_triangles = Inr () \<and>
   outlines_oriented two_triangles \<union> outlines_oriented (flip two_triangles)
     \<noteq> set (edges_oriented two_triangles) \<and>
   outlines_oriented two_triangles \<union> outlines_oriented (flip two_triangles)
     \<noteq> set (edges_oriented two_triangles) \<union> set (edges_oriented (flip two_triangles))"
proof -
  have in_edges: "(0, 1) \<in> set (edges_oriented two_triangles)"
    by (simp add: two_triangles_def edges_oriented_def)
  have not_in: "(0, 1) \<notin> outlines_oriented two_triangles \<union> outlines_oriented (flip two_triangles)"
    by (simp add: tt_out tt_out_flip)
  from in_edges not_in check_two_triangles show ?thesis by blast
qed

section \<open>The orientation of a mesh\<close>

lemma check_faces_facenormals:
  "check_faces (int (length pts)) fs = Inr () \<Longrightarrow> \<exists>ns. facenormals_list pts fs = Inr ns"
proof (induction fs)
  case Nil
  then show ?case by simp
next
  case (Cons f fs)
  obtain a b c where f: "f = (a, b, c)" by (cases f)
  from Cons.prems have r: "0 \<le> a" "a < int (length pts)" "0 \<le> b" "b < int (length pts)"
      "0 \<le> c" "c < int (length pts)" and rest: "check_faces (int (length pts)) fs = Inr ()"
    by (auto simp: f split: if_splits sum.splits)
  from Cons.IH[OF rest] obtain ns where ns: "facenormals_list pts fs = Inr ns" by blast
  from r have "\<exists>n. facenormal pts f = Inr n"
    by (simp add: f facenormal_def facepoints_def pyindex_def Let_def)
  with ns show ?case by auto
qed

lemma check_faces_barycenter_loop:
  "check_faces (int (length pts)) fs = Inr () \<Longrightarrow> \<exists>r. barycenter_loop pts fs acc tot = Inr r"
proof (induction fs arbitrary: acc tot)
  case Nil
  then show ?case by (simp del: split_paired_Ex)
next
  case (Cons f fs)
  obtain a b c where f: "f = (a, b, c)" by (cases f)
  from Cons.prems have r: "0 \<le> a" "a < int (length pts)" "0 \<le> b" "b < int (length pts)"
      "0 \<le> c" "c < int (length pts)" and rest: "check_faces (int (length pts)) fs = Inr ()"
    by (auto simp: f split: if_splits sum.splits)
  from r have "facepoints pts f = Inr (pts ! nat a, pts ! nat b, pts ! nat c)"
    by (simp add: f facepoints_def pyindex_def)
  then show ?case
    using Cons.IH[OF rest] by (cases acc) (simp add: Let_def)
qed

lemma check_orient_setup:
  assumes "check m = Inr ()"
  shows "\<exists>ns. orient_setup dir m = Inr ns"
proof -
  from assms have c: "check_faces (int (length (points m))) (faces m) = Inr ()"
    by (auto simp: check_def split: sum.splits if_splits)
  from check_faces_facenormals[OF c] obtain ns where ns: "facenormals m = Inr ns"
    by (auto simp: facenormals_def)
  from check_faces_barycenter_loop[OF c, of "(0, 0, 0)" 0]
  obtain r where "barycenter_loop (points m) (faces m) (0, 0, 0) 0 = Inr r" by blast
  then have "\<exists>center. barycenter m = Inr center"
    by (cases r) (simp add: barycenter_def)
  with ns show ?thesis
    by (auto simp: orient_setup_def split: option.splits)
qed

definition crossed_pair :: "(int, unit) Mesh" where
  "crossed_pair = \<lparr>points = [(0, 0, 0), (1, 0, 0), (0, 1, 0), (1, -1, 0)],
     faces = [(0, 1, 2), (0, 1, 3)], tracks = [0, 0], groups = [()]\<rparr>"

text \<open>
  Claim C3 on the code.  On every mesh that passes \<open>check()\<close>, with or without a direction,
  \<open>orient\<close> raises \<open>NameError\<close> at the first statement of its loop and returns no mesh; on
  any other mesh it raises as well.
\<close>

theorem orient_raises_NameError:
  "(check m = Inr () \<longrightarrow> orient dir m = Inl NameError) \<and> isl (orient dir' m')"
proof (intro conjI impI)
  assume "check m = Inr ()"
  from check_orient_setup[OF this] obtain ns where "orient_setup dir m = Inr ns" by blast
  then show "orient dir m = Inl NameError" by (simp add: orient_def)
next
  show "isl (orient dir' m')"
    by (simp add: orient_def split: sum.splits)
qed

theorem orient_raises_witness:
  "check crossed_pair = Inr () \<and> orient None crossed_pair = Inl NameError"
proof -
  have c: "check crossed_pair = Inr ()"
    by (simp add: crossed_pair_def check_def max_default_def)
  with orient_raises_NameError[of crossed_pair None] show ?thesis by blast
qed

section \<open>Islands of a mesh without faces\<close>

text \<open>
  Claim C10.  A mesh with an empty face list passes \<open>check\<close>, but \<open>islands\<close> and
  \<open>propagate\<close> do not return an empty result for it: the default search procedure
  \<open>find\<close> runs \<open>for i in range(start[0], len(reached))\<close> over an empty range and then reads
  \<open>i\<close>, which was never assigned, so the call fails with an unbound-variable error.
\<close>

theorem islands_empty_mesh_unbound:
  "check \<lparr>points = ps, faces = [], tracks = [], groups = gs\<rparr> = Inr () \<and>
   islands \<lparr>points = ps, faces = [], tracks = [], groups = gs\<rparr> = Inl UnboundLocalError \<and>
   propagate atface atisland \<lparr>points = ps, faces = [], tracks = [], groups = gs\<rparr> s
     = Inl UnboundLocalError"
  by (simp add: check_def max_default_def islands_def propagate_def find_def prop_loop.simps)

section \<open>Cells of points and segments\<close>

lemma sqrt_49: "sqrt 49 = 7"
  by (rule real_sqrt_unique) simp_all

lemma normalize_236: "normalize (2, 3, 6) = (2 / 7, 3 / 7, 6 / 7)"
  by (simp add: normalize_def vlength_def sqrt_49)

lemma pymod_values:
  "pymod 0 1 = 0" "pymod (2/3) 1 = 2/3" "pymod 1 1 = 0" "pymod 2 1 = 0"
  "pymod (3/2) 1 = 1/2" "pymod 3 1 = 0" "pymod (4/3) 1 = 1/3" "pymod 4 1 = 0" "pymod 6 1 = 0"
  by (simp_all add: pymod_def)

lemma xgt_irrefl: "\<not> xgt x x"
  by (cases x) simp_all

lemma choose_axis_never_2: "choose_axis prox \<noteq> 2"
  by (simp add: choose_axis_def Let_def xgt_irrefl)

lemma keysfor_segment_236:
  "keysfor 1 (Segment (0, 0, 0) (2, 3, 6))
     = Some (Inr [(0, 0, 0), (0, 0, 1), (0, 1, 2), (1, 1, 3), (1, 2, 5), (2, 3, 7)])"
  unfolding keysfor_def keysfor_segment_def
  apply (simp add: normalize_236)
  apply (subst segment_loop.simps,
         simp add: prox_component_def choose_axis_def Let_def trunc_int_def pymod_values)+
  done

text \<open>
  Claim C8 on the code.  The axis selection tests \<open>prox[1]\<close> twice, so it never selects
  axis 2.  On the segment from \<open>(0,0,0)\<close> to \<open>(2,3,6)\<close> with cell size 1 the first \<open>prox\<close> is
  \<open>(7/2, 7/3, 7/6)\<close>, whose minimum is on axis 2; the code advances along axis 1 by \<open>7/3\<close>,
  and the whole traversal yields the cells below: the cell \<open>(1,2,4)\<close>, which the segment
  crosses, is missing, and the last cell \<open>(2,3,7)\<close> lies beyond the end of the segment.
\<close>

theorem keysfor_segment_axis_slip:
  "choose_axis prox \<noteq> 2 \<and>
   prox_of 1 (0, 0, 0) (normalize (vsub (2, 3, 6) (0, 0, 0))) = [Fin (7 / 2), Fin (7 / 3), Fin (7 / 6)] \<and>
   choose_axis [Fin (7 / 2), Fin (7 / 3), Fin (7 / 6)] = 1 \<and>
   keysfor 1 (Segment (0, 0, 0) (2, 3, 6))
     = Some (Inr [(0, 0, 0), (0, 0, 1), (0, 1, 2), (1, 1, 3), (1, 2, 5), (2, 3, 7)])"
  using choose_axis_never_2[of prox] keysfor_segment_236
  by (simp add: normalize_236 prox_component_def pymod_values choose_axis_def)

lemma ceiling_minus_half: "\<lceil>- (1 / 2) :: real\<rceil> = 0"
  by (rule ceiling_unique) simp_all

text \<open>
  Claim C9 on the code.  The cell of a point is computed by \<open>ivec3\<close>, which truncates
  towards zero, whereas the triangle branch of the same function uses \<open>floor\<close>.  For the
  point \<open>(-1/2, -1/2, -1/2)\<close> and cell size 1 the code yields the cell \<open>(0,0,0)\<close>, not the
  cell \<open>(-1,-1,-1)\<close> whose box contains the point; \<open>PointSet.keyfor\<close> (on a set whose cell
  size has been assigned) does the same.
\<close>

theorem keysfor_point_truncates:
  "keysfor 1 (Point (- 1 / 2, - 1 / 2, - 1 / 2)) = Some (Inr [(0, 0, 0)]) \<and>
   keyfor \<lparr>ps_points = [], ps_cellsize = Some 1, ps_dict = Map.empty\<rparr> (- 1 / 2, - 1 / 2, - 1 / 2)
     = Inr (0, 0, 0) \<and>
   (\<lfloor>(- 1 / 2 :: real) / 1\<rfloor>, \<lfloor>(- 1 / 2 :: real) / 1\<rfloor>, \<lfloor>(- 1 / 2 :: real) / 1\<rfloor>) = (- 1, - 1, - 1)"
  by (simp add: keysfor_def keyfor_def trunc_int_def ceiling_minus_half)

section \<open>PointSet.add\<close>

text \<open>
  Claim C4 on the code.  On a set built by \<open>PointSet(1)\<close>, \<open>add\<close> raises \<open>AttributeError\<close>,
  because the constructor never stores the cell size; and on a set whose cell size has been
  assigned by hand, \<open>add\<close> inserts the point but returns \<open>None\<close>, not its index.
\<close>

theorem PointSet_add_no_index:
  "PointSet_add (PointSet_init 1) (1 / 2, 1 / 2, 1 / 2) = Inl AttributeError \<and>
   PointSet_add ((PointSet_init 1)\<lparr>ps_cellsize := Some 1\<rparr>) (1 / 2, 1 / 2, 1 / 2)
     = Inr (PyNone, \<lparr>ps_points = [(1 / 2, 1 / 2, 1 / 2)], ps_cellsize = Some 1,
                     ps_dict = [(0, 0, 0) \<mapsto> 0]\<rparr>)"
  by (simp add: PointSet_add_def PointSet_init_def keyfor_def trunc_int_def)

section \<open>Triangulation: the ear clipping never reports a failure\<close>

text \<open>
  The self-crossing quadrilateral \<open>(0,0,0), (2,0,0), (0,2,0), (2,2,0)\<close>: after two of its
  corners no ear has a score above the tolerance.
\<close>

definition bowtie :: "unit Wire" where
  "bowtie = \<lparr>w_points = [(0, 0, 0), (2, 0, 0), (0, 2, 0), (2, 2, 0)],
     w_indices = [0, 1, 2, 3], w_tracks = None, w_groups = [()]\<rparr>"

lemma pyindex_simps [simp]:
  "pyindex (x0 # xs) 0 = Inr x0"
  "pyindex (x0 # x1 # xs) 1 = Inr x1"
  "pyindex (x0 # x1 # x2 # xs) 2 = Inr x2"
  "pyindex (x0 # x1 # x2 # x3 # xs) 3 = Inr x3"
  by (simp_all add: pyindex_def)

lemma vlength_axis [simp]: "vlength (x, 0, 0) = \<bar>x\<bar>" "vlength (0, y, 0) = \<bar>y\<bar>" "vlength (0, 0, z) = \<bar>z\<bar>"
  by (simp_all add: vlength_def)

lemma thres_pos: "0 < thres" "thres < 1"
  by (simp_all add: thres_def NUMPREC_def)

lemma guessbase_bowtie: "guessbase bowtie (NormalFloat 0) = Inr ((1, 0, 0), (0, 1, 0), (0, 0, 1))"
  using thres_pos
  by (simp add: guessbase_def bowtie_def maxabs_def normalize_def noproject_def project_def)

lemma planebase_bowtie: "planebase bowtie (NormalFloat 0) = Inr ((1, 0, 0), (0, 1, 0))"
  by (simp add: planebase_def guessbase_bowtie)
     (simp add: bowtie_def argmin_def Let_def)

lemma planeproject_bowtie: "planeproject bowtie (NormalFloat 0) = Inr [(0, 0), (2, 0), (0, 2), (2, 2)]"
  by (simp add: planeproject_def planebase_bowtie)
     (simp add: bowtie_def project2_def)


lemma sqrt8_pos: "0 < 4 + sqrt 8" "4 + sqrt 8 \<noteq> 0"
proof -
  have "0 \<le> sqrt 8" by simp
  then show "0 < 4 + sqrt 8" "4 + sqrt 8 \<noteq> 0" by linarith+
qed

lemma upt_4: "[0 ..< 4] = [0, 1, 2, 3]"
  by (simp add: upt_conv_Cons)

lemma scores_bowtie:
  "scores_of [(0, 0), (2, 0), (0, 2), (2, 2)] [0 ..< 4]
   = Inr [Fin (4 / (4 + sqrt 8)\<^sup>2), Fin (4 / (4 + sqrt 8)\<^sup>2),
          Fin (- 4 / (4 + sqrt 8)\<^sup>2), Fin (- 4 / (4 + sqrt 8)\<^sup>2)]"
  using sqrt8_pos
  apply (simp add: upt_4 score_def Let_def aesthetic_def inside_def)
  done


lemma sq_pos: "0 < (4 + sqrt 8)\<^sup>2"
  using sqrt8_pos by simp

lemma sqrt8_less: "sqrt 8 < 3"
proof -
  have "sqrt 8 < sqrt 9" by (rule real_sqrt_less_mono) simp
  also have "sqrt 9 = 3" by (rule real_sqrt_unique) simp_all
  finally show ?thesis .
qed

lemma sq_bound: "(4 + sqrt 8)\<^sup>2 < 40000000000000"
proof -
  have "0 \<le> 4 + sqrt 8" "4 + sqrt 8 < 7" using sqrt8_pos sqrt8_less by simp_all
  then have "(4 + sqrt 8)\<^sup>2 < 7\<^sup>2" by (intro power_strict_mono) simp_all
  then show ?thesis by simp
qed

lemma score_bounds:
  "\<not> 4 / (4 + sqrt 8)\<^sup>2 < - (1 / 10000000000000)"
  "- (4 / (4 + sqrt 8)\<^sup>2) < - (1 / 10000000000000)"
proof -
  have "0 < 4 / (4 + sqrt 8)\<^sup>2" using sq_pos by simp
  then show "\<not> 4 / (4 + sqrt 8)\<^sup>2 < - (1 / 10000000000000)" by linarith
  have "1 / 10000000000000 < 4 / (4 + sqrt 8)\<^sup>2"
    using sq_pos sq_bound by (simp add: field_simps)
  then show "- (4 / (4 + sqrt 8)\<^sup>2) < - (1 / 10000000000000)" by linarith
qed

lemmas clip_eval = argmax_def Let_def pop_at_def score_def aesthetic_def inside_def NUMPREC_def

lemma clip_bowtie:
  "clip [0, 1, 2, 3] [(0, 0), (2, 0), (0, 2), (2, 2)]
     [Fin (4 / (4 + sqrt 8)\<^sup>2), Fin (4 / (4 + sqrt 8)\<^sup>2),
      Fin (- 4 / (4 + sqrt 8)\<^sup>2), Fin (- 4 / (4 + sqrt 8)\<^sup>2)] [] 0
   = Inr ([(3, 0, 1), (3, 1, 2)], 1)"
  apply (subst clip.simps)
  apply (simp add: clip_eval sqrt8_pos sq_pos sq_bound score_bounds)
  apply (subst clip.simps)
  apply (simp add: clip_eval sqrt8_pos sq_pos sq_bound score_bounds)
  apply (subst clip.simps)
  apply (simp add: clip_eval sqrt8_pos sq_pos sq_bound score_bounds)
  done


definition not_mesh_error :: "error + 'a \<Rightarrow> bool" where
  "not_mesh_error r = (case r of Inl (MeshError msg) \<Rightarrow> False | _ \<Rightarrow> True)"

lemma nme_simps [simp]:
  "not_mesh_error (Inr x)" "not_mesh_error (Inl IndexError)" "not_mesh_error (Inl ValueError)"
  "not_mesh_error (Inl ZeroDivisionError)" "not_mesh_error (Inl TypeError)"
  by (simp_all add: not_mesh_error_def)

lemma nme_Inl: "not_mesh_error (Inl e :: error + 'a) \<Longrightarrow> not_mesh_error (Inl e :: error + 'b)"
  by (simp add: not_mesh_error_def)

lemma nme_pyindex [simp]: "not_mesh_error (pyindex xs i)"
  by (simp add: pyindex_def)

lemma nme_pyindex_Inl: "pyindex xs i = Inl e \<Longrightarrow> not_mesh_error (Inl e :: error + 'b)"
  using nme_pyindex[of xs i] by (simp add: not_mesh_error_def)

lemma nme_wire_points [simp]: "not_mesh_error (wire_points pts is)"
  by (induction "is") (auto split: sum.splits dest: nme_pyindex_Inl simp: not_mesh_error_def)

lemma nme_guess_x [simp]: "not_mesh_error (guess_x pts o' ol is)"
  by (induction "is") (auto split: sum.splits dest: nme_pyindex_Inl simp: not_mesh_error_def)

lemma nme_guess_y [simp]: "not_mesh_error (guess_y pts o' x is)"
  by (induction "is") (auto split: sum.splits dest: nme_pyindex_Inl simp: not_mesh_error_def)

lemma nme_dirbase [simp]: "not_mesh_error (dirbase n)"
  by (cases n) (simp_all add: dirbase_def Let_def)

lemma nme_case:
  "not_mesh_error r \<Longrightarrow> (\<And>x. r = Inr x \<Longrightarrow> not_mesh_error (f x)) \<Longrightarrow>
   not_mesh_error (case r of Inl e \<Rightarrow> Inl e | Inr x \<Rightarrow> f x)"
  by (cases r) (auto simp: not_mesh_error_def split: error.splits)

lemma nme_guessbase [simp]: "not_mesh_error (guessbase w n)"
  unfolding guessbase_def
  by (auto split: list.splits prod.splits intro!: nme_case)

lemma nme_argmin [simp]: "not_mesh_error (argmin vs)"
  by (cases vs) (simp_all add: argmin_def)

lemma nme_planebase [simp]: "not_mesh_error (planebase w n)"
  unfolding planebase_def
  by (auto split: prod.splits simp: Let_def intro!: nme_case)

lemma nme_planeproject [simp]: "not_mesh_error (planeproject w n)"
  unfolding planeproject_def
  by (auto split: prod.splits intro!: nme_case)

lemma nme_aesthetic [simp]: "not_mesh_error (aesthetic u v)"
  by (simp add: aesthetic_def)

lemma nme_score [simp]: "not_mesh_error (score proj i)"
  unfolding score_def Let_def
  by (auto intro!: nme_case)

lemma nme_scores_of [simp]: "not_mesh_error (scores_of proj is)"
  by (induction "is") (auto intro!: nme_case)

lemma nme_clip [simp]: "not_mesh_error (clip hole proj scores triangles warnings)"
proof (induction hole proj scores triangles warnings rule: clip.induct)
  case (1 hole proj scores triangles warnings)
  show ?case
    by (subst clip.simps) (auto simp: Let_def intro!: nme_case 1)
qed

lemma nme_outline_warn [simp]: "not_mesh_error (triangulation_outline_warn outline n)"
proof (cases "planeproject outline n")
  case (Inl e)
  with nme_planeproject[of outline n] show ?thesis
    by (cases e) (simp_all add: triangulation_outline_warn_def not_mesh_error_def)
next
  case (Inr proj)
  then show ?thesis
    by (auto simp: triangulation_outline_warn_def split: prod.splits intro!: nme_case)
qed

lemma nme_outline [simp]: "not_mesh_error (triangulation_outline outline n)"
  unfolding triangulation_outline_def
  by (auto split: prod.splits intro!: nme_case)

lemma catch_mesh_error:
  "not_mesh_error r \<Longrightarrow>
   (case r of Inl (MeshError msg) \<Rightarrow> f msg | Inl e \<Rightarrow> Inl e | Inr m \<Rightarrow> Inr m) = r"
  by (auto simp: not_mesh_error_def split: sum.splits error.splits)

lemma triangulation_no_fallback:
  "triangulation skel outline prec = triangulation_outline outline (NormalFloat prec)"
  unfolding triangulation_def by (rule catch_mesh_error) (rule nme_outline)

lemma triangulation_outline_float:
  "prec \<noteq> 0 \<Longrightarrow> triangulation_outline outline (NormalFloat prec) = Inl TypeError"
  by (simp add: triangulation_outline_def triangulation_outline_warn_def planeproject_def
        planebase_def guessbase_def dirbase_def)

lemma outline_warn_bowtie:
  "triangulation_outline_warn bowtie (NormalFloat 0)
   = Inr (Mesh_of (w_points bowtie) [(3, 0, 1), (3, 1, 2)], 1)"
proof -
  have h: "w_indices bowtie = [0, 1, 2, 3]"
    by (simp add: bowtie_def)
  have l: "length [0, 1, 2, 3 :: int] = 4"
    by simp
  show ?thesis
    unfolding triangulation_outline_warn_def planeproject_bowtie h l sum.case
      scores_bowtie clip_bowtie prod.case ..
qed

text \<open>
  Claim C6.  \<open>triangulation(outline, prec)\<close> returns whatever \<open>triangulation_outline\<close>
  returns, for every outline, every precision and every skeleton triangulation: the ear
  clipping raises no \<open>MeshError\<close> (its assertion on the best score is replaced by a printed
  warning), so the handler that calls \<open>triangulation_skeleton\<close> is never entered.  On the
  self-crossing quadrilateral with \<open>prec = 0\<close> the best score falls below \<open>-NUMPREC\<close> once,
  and the two clipped triangles are returned.  With the default \<open>prec = NUMPREC\<close> the float
  is taken as the normal and \<open>dirbase\<close> raises \<open>TypeError\<close>.
\<close>

theorem triangulation_never_falls_back:
  "triangulation skel outline prec = triangulation_outline outline (NormalFloat prec)
   \<and> triangulation_outline_warn bowtie (NormalFloat 0)
       = Inr (Mesh_of (w_points bowtie) [(3, 0, 1), (3, 1, 2)], 1)
   \<and> triangulation skel' bowtie 0 = Inr (Mesh_of (w_points bowtie) [(3, 0, 1), (3, 1, 2)])
   \<and> triangulation skel'' outline' NUMPREC = Inl TypeError"
proof (intro conjI)
  show "triangulation skel outline prec = triangulation_outline outline (NormalFloat prec)"
    by (rule triangulation_no_fallback)
  show "triangulation_outline_warn bowtie (NormalFloat 0)
        = Inr (Mesh_of (w_points bowtie) [(3, 0, 1), (3, 1, 2)], 1)"
    by (rule outline_warn_bowtie)
  show "triangulation skel' bowtie 0 = Inr (Mesh_of (w_points bowtie) [(3, 0, 1), (3, 1, 2)])"
    by (simp add: triangulation_no_fallback triangulation_outline_def outline_warn_bowtie)
  have "NUMPREC \<noteq> 0" by (simp add: NUMPREC_def)
  then show "triangulation skel'' outline' NUMPREC = Inl TypeError"
    by (simp add: triangulation_no_fallback triangulation_outline_float)
qed

section \<open>Ear clipping: area and outline of the triangles\<close>

text \<open>
  The consecutive pairs of a closed loop, and the sum of a function over them.  Removing
  one element of the loop changes that sum by the three terms of the clipped triangle.
\<close>

definition cyc_pairs :: "'a list \<Rightarrow> ('a \<times> 'a) list" where
  "cyc_pairs xs = zip xs (rotate1 xs)"

definition closed :: "('a \<Rightarrow> 'a \<Rightarrow> 'b::ab_group_add) \<Rightarrow> 'a list \<Rightarrow> 'b" where
  "closed f xs = sum_list (map (\<lambda>(a, b). f a b) (cyc_pairs xs))"

fun tri :: "('a \<Rightarrow> 'a \<Rightarrow> 'b::ab_group_add) \<Rightarrow> 'a face \<Rightarrow> 'b" where
  "tri f (a, b, c) = f a b + f b c - f a c"

lemma rotate1_zip:
  "length xs = length ys \<Longrightarrow> rotate1 (zip xs ys) = zip (rotate1 xs) (rotate1 ys)"
  by (cases xs; cases ys) simp_all

lemma sum_list_rotate1: "sum_list (rotate1 (xs :: 'b::ab_group_add list)) = sum_list xs"
  by (cases xs) (simp_all add: add.commute)

lemma closed_rotate1: "closed f (rotate1 xs) = closed f xs"
proof -
  have "cyc_pairs (rotate1 xs) = rotate1 (cyc_pairs xs)"
    by (simp add: cyc_pairs_def rotate1_zip)
  then show ?thesis
    by (simp add: closed_def rotate1_map[symmetric] sum_list_rotate1 del: rotate1_map)
qed

lemma closed_rotate: "closed f (rotate n xs) = closed f xs"
  by (induction n) (simp_all add: closed_rotate1)

lemma closed_Cons:
  assumes "ys \<noteq> []"
  shows "closed f (y # ys) = closed f ys + f (last ys) y + f y (hd ys) - f (last ys) (hd ys)"
proof -
  obtain B p where ys: "ys = B @ [p]"
    using assms by (metis append_butlast_last_id)
  obtain n T where ys': "ys = n # T"
    using assms by (cases ys) auto
  have len: "length B = length T" using ys ys' by (metis length_append_singleton length_Cons nat.inject)
  have 1: "cyc_pairs (y # ys) = (y, n) # zip B T @ [(p, y)]"
    using len by (simp add: cyc_pairs_def ys') (simp add: ys[unfolded ys'])
  have 2: "cyc_pairs ys = zip B T @ [(p, n)]"
    using len by (simp add: cyc_pairs_def ys') (simp add: ys[unfolded ys'])
  have "last ys = p" using ys by simp
  moreover have "hd ys = n" using ys' by simp
  ultimately  show ?thesis
    by (simp add: closed_def 1 2 algebra_simps)
qed

lemma rotate_pop_at:
  assumes "i < length xs"
  shows "rotate i (pop_at i xs) = tl (rotate i xs)"
proof -
  have r: "rotate i xs = drop i xs @ take i xs"
    using assms by (simp add: rotate_drop_take)
  have d: "drop i xs = xs ! i # drop (Suc i) xs"
    using assms by (simp add: Cons_nth_drop_Suc)
  have t: "tl (rotate i xs) = drop (Suc i) xs @ take i xs"
    by (simp add: r d)
  show ?thesis
  proof (cases "Suc i < length xs")
    case True
    then have "i mod length (pop_at i xs) = i" by (simp add: pop_at_def)
    then have "rotate i (pop_at i xs) = drop i (pop_at i xs) @ take i (pop_at i xs)"
      by (simp add: rotate_drop_take)
    also have "\<dots> = drop (Suc i) xs @ take i xs"
      using True by (simp add: pop_at_def)
    finally show ?thesis by (simp add: t)
  next
    case False
    with assms have i: "Suc i = length xs" by simp
    then have p: "pop_at i xs = take i xs" by (simp add: pop_at_def)
    have "length (take i xs) = i" using assms by simp
    then have "rotate i (take i xs) = take i xs"
      by (metis rotate_length01 rotate_id mod_self)
    then show ?thesis using i by (simp add: p t)
  qed
qed

lemma closed_pop:
  assumes "i < length xs" "2 \<le> length xs"
  shows "closed f xs = closed f (pop_at i xs)
           + f (xs ! ((i + length xs - 1) mod length xs)) (xs ! i)
           + f (xs ! i) (xs ! ((i + 1) mod length xs))
           - f (xs ! ((i + length xs - 1) mod length xs)) (xs ! ((i + 1) mod length xs))"
proof -
  let ?l = "length xs"
  let ?r = "rotate i xs"
  have lr: "length ?r = ?l" by simp
  obtain y ys where r: "?r = y # ys" using assms by (cases ?r) auto
  have ys: "ys \<noteq> []" using assms lr r by (cases ys) auto
  have ne: "xs \<noteq> []" using assms(1) by (cases xs) simp_all
  have "?r ! 0 = xs ! ((i + 0) mod ?l)"
    using ne by (intro nth_rotate) simp
  then have y: "y = xs ! i"
    using assms r by simp
  have "hd ys = ?r ! 1" using r ys by (cases ys) simp_all
  also have "\<dots> = xs ! ((i + 1) mod ?l)"
    using nth_rotate[of 1 xs i] assms by simp
  finally have n: "hd ys = xs ! ((i + 1) mod ?l)" .
  have "last ys = last ?r" using r ys by simp
  also have "\<dots> = ?r ! (?l - 1)"
    using last_conv_nth[of ?r] ne by simp
  also have "\<dots> = xs ! ((i + (?l - 1)) mod ?l)"
    using assms by (intro nth_rotate) simp
  also have "i + (?l - 1) = i + ?l - 1" using assms by simp
  finally have p: "last ys = xs ! ((i + ?l - 1) mod ?l)" .
  have "ys = rotate i (pop_at i xs)"
    using rotate_pop_at[OF assms(1)] r by simp
  then have c: "closed f ys = closed f (pop_at i xs)"
    by (simp add: closed_rotate)
  have "closed f xs = closed f ?r" by (simp add: closed_rotate)
  also have "\<dots> = closed f ys + f (last ys) y + f y (hd ys) - f (last ys) (hd ys)"
    unfolding r by (rule closed_Cons[OF ys])
  finally show ?thesis
    unfolding c y n p .
qed

lemma length_2_nonneg [simp]: "0 \<le> length_2 u"
  by (cases u) simp

lemma length_2_pos: "u \<noteq> (0, 0) \<Longrightarrow> 0 < length_2 u"
proof (cases u)
  case (Pair x y)
  assume "u \<noteq> (0, 0)"
  with Pair have "x \<noteq> 0 \<or> y \<noteq> 0" by simp
  then have "0 < x * x + y * y"
    by (metis not_sum_squares_lt_zero sum_squares_eq_zero_iff less_eq_real_def linorder_not_less)
  with Pair show ?thesis by simp
qed

lemma aesthetic_ok:
  assumes "u \<noteq> (0, 0)"
  shows "\<exists>s. aesthetic u v = Inr s"
proof -
  have "0 < length_2 u" using assms by (rule length_2_pos)
  moreover have "0 \<le> length_2 v" "0 \<le> length_2 (sub2 u v)" by simp_all
  ultimately have "0 < length_2 u + length_2 v + length_2 (sub2 u v)" by linarith
  then show ?thesis by (simp add: aesthetic_def)
qed

lemma sub2_eq_0: "sub2 a b = (0, 0) \<longleftrightarrow> a = b"
  by (cases a; cases b) auto

lemma score_ok:
  assumes "distinct proj" "2 \<le> length proj" "i < length proj"
  shows "\<exists>s. score proj i = Inr s"
proof -
  let ?l = "length proj"
  have "(i + 1) mod ?l \<noteq> i"
  proof (cases "i + 1 < ?l")
    case True
    then show ?thesis by simp
  next
    case False
    with assms have "i + 1 = ?l" by simp
    then have "(i + 1) mod ?l = 0" by simp
    moreover have "i \<noteq> 0" using \<open>i + 1 = ?l\<close> assms by simp
    ultimately show ?thesis by simp
  qed
  moreover have "0 < ?l" using assms by linarith
  then have "(i + 1) mod ?l < ?l" by (rule mod_less_divisor)
  ultimately have "proj ! ((i + 1) mod ?l) \<noteq> proj ! i"
    using assms by (simp add: nth_eq_iff_index_eq)
  then have "sub2 (proj ! ((i + 1) mod ?l)) (proj ! i) \<noteq> (0, 0)"
    by (simp add: sub2_eq_0)
  from aesthetic_ok[OF this]
  obtain s where "aesthetic (sub2 (proj ! ((i + 1) mod ?l)) (proj ! i))
      (sub2 (proj ! ((i + ?l - 1) mod ?l)) (proj ! i)) = Inr s" by blast
  then show ?thesis
    by (simp add: score_def Let_def)
qed

lemma scores_of_ok:
  assumes "distinct proj" "2 \<le> length proj"
  shows "\<forall>i \<in> set is. i < length proj \<Longrightarrow> \<exists>ss. scores_of proj is = Inr ss"
proof (induction "is")
  case Nil
  then show ?case by simp
next
  case (Cons i "is")
  then obtain ss where ss: "scores_of proj is = Inr ss" by auto
  from Cons.prems have "i < length proj" by simp
  from score_ok[OF assms this] obtain s where "score proj i = Inr s" by blast
  with ss show ?case by simp
qed

lemma distinct_pop_at: "distinct xs \<Longrightarrow> distinct (pop_at i xs)"
  using set_take_disj_set_drop_if_distinct[of xs i "Suc i"]
  by (simp add: pop_at_def)

lemma length_pop_at: "i < length xs \<Longrightarrow> length (pop_at i xs) = length xs - 1"
  by (simp add: pop_at_def)

lemma clip_telescope:
  "distinct proj \<Longrightarrow> length proj = length hole \<Longrightarrow> 2 \<le> length hole \<Longrightarrow>
   \<exists>new w' a b. clip hole proj scores tris w = Inr (tris @ new, w') \<and>
      length new = length hole - 2 \<and>
      (\<forall>f :: int \<Rightarrow> int \<Rightarrow> 'b::ab_group_add.
          closed f hole = sum_list (map (tri f) new) + f a b + f b a)"
proof (induction hole proj scores tris w rule: clip.induct)
  case (1 hole proj scores tris w)
  show ?case
  proof (cases "2 < length hole")
    case False
    with 1(4) have "length hole = 2" by simp
    then obtain a b where h: "hole = [a, b]"
      by (metis (no_types, opaque_lifting) One_nat_def Suc_1 length_0_conv length_Suc_conv)
    have "clip hole proj scores tris w = Inr (tris @ [], w)"
      by (subst clip.simps) (simp add: h)
    moreover have "\<forall>f :: int \<Rightarrow> int \<Rightarrow> 'b. closed f hole = sum_list (map (tri f) []) + f a b + f b a"
      by (simp add: h closed_def cyc_pairs_def)
    ultimately show ?thesis using h by (intro exI[of _ "[]"] exI[of _ w] exI[of _ a] exI[of _ b]) simp
  next
    case True
    define l where "l = length hole"
    define i where "i = argmax (take l scores)"
    define w1 where "w1 = (if xgt (Fin (- NUMPREC)) (scores ! i) then Suc w else w)"
    define t where "t = (hole ! ((i + l - 1) mod l), hole ! i, hole ! ((i + 1) mod l))"
    define hole' where "hole' = pop_at i hole"
    define proj' where "proj' = pop_at i proj"
    define scores' where "scores' = pop_at i scores"
    define l' where "l' = l - 1"
    have "0 < l" using True l_def by linarith
    then have il: "i < l" unfolding i_def by (rule argmax_take_bound)
    have d': "distinct proj'" unfolding proj'_def using 1(2) by (rule distinct_pop_at)
    have len': "length proj' = l'" "length hole' = l'"
      using il 1(3) by (simp_all add: proj'_def hole'_def l'_def l_def length_pop_at)
    have l'2: "2 \<le> l'" using True by (simp add: l'_def l_def)
    have k: "(i + l' - 1) mod l' < l'" "i mod l' < l'" using l'2 by simp_all
    from score_ok[OF d'] len' l'2 k obtain s1 s2
      where s1: "score proj' ((i + l' - 1) mod l') = Inr s1"
        and s2: "score proj' (i mod l') = Inr s2" by metis
    define scores'' where "scores'' = scores'[(i + l' - 1) mod l' := s1, i mod l' := s2]"
    have step: "clip hole proj scores tris w = clip hole' proj' scores'' (tris @ [t]) w1"
      using True s1 s2
      unfolding scores''_def scores'_def proj'_def hole'_def t_def w1_def l'_def i_def l_def
      by (subst clip.simps) (simp add: Let_def)
    have "\<exists>new w' a b. clip hole' proj' scores'' (tris @ [t]) w1 = Inr ((tris @ [t]) @ new, w') \<and>
      length new = length hole' - 2 \<and>
      (\<forall>f :: int \<Rightarrow> int \<Rightarrow> 'b.
          closed f hole' = sum_list (map (tri f) new) + f a b + f b a)"
      unfolding scores''_def
      by (rule "1.IH"[OF True l_def i_def w1_def _ hole'_def proj'_def scores'_def l'_def s1 s2 d'])
         (simp_all add: t_def len' l'2)
    then obtain new w' a b where r: "clip hole' proj' scores'' (tris @ [t]) w1 = Inr ((tris @ [t]) @ new, w')"
      and n: "length new = length hole' - 2"
      and c: "\<And>f :: int \<Rightarrow> int \<Rightarrow> 'b. closed f hole' = sum_list (map (tri f) new) + f a b + f b a"
      by blast
    have "\<forall>f :: int \<Rightarrow> int \<Rightarrow> 'b. closed f hole = sum_list (map (tri f) (t # new)) + f a b + f b a"
    proof
      fix f :: "int \<Rightarrow> int \<Rightarrow> 'b"
      have "closed f hole = closed f hole' + tri f t"
        using closed_pop[of i hole f] il 1(4)
        by (simp add: l_def hole'_def t_def algebra_simps)
      then show "closed f hole = sum_list (map (tri f) (t # new)) + f a b + f b a"
        by (simp add: c algebra_simps)
    qed
    moreover have "length (t # new) = length hole - 2"
      using n len' True by (simp add: l'_def l_def)
    moreover have "clip hole proj scores tris w = Inr (tris @ (t # new), w')"
      using step r by simp
    ultimately show ?thesis by blast
  qed
qed

definition area2 :: "vec2 \<Rightarrow> vec2 \<Rightarrow> vec2 \<Rightarrow> real" where
  "area2 a b c = perpdot (sub2 b a) (sub2 c a) / 2"

fun face_area :: "(int \<Rightarrow> vec2) \<Rightarrow> int face \<Rightarrow> real" where
  "face_area P (a, b, c) = area2 (P a) (P b) (P c)"

definition polygon_area :: "vec2 list \<Rightarrow> real" where
  "polygon_area ps = sum_list (map (\<lambda>(a, b). perpdot a b) (cyc_pairs ps)) / 2"

definition polygon_edges :: "int list \<Rightarrow> int edge set" where
  "polygon_edges is = set (map edgekey (cyc_pairs is))"

definition point2d :: "'g Wire \<Rightarrow> vec3 \<Rightarrow> vec3 \<Rightarrow> int \<Rightarrow> vec2" where
  "point2d W x y v = project2 x y (pynth (w_points W) v)"

lemma pyindex_pynth: "pyindex xs i = Inr p \<Longrightarrow> p = pynth xs i"
  by (auto simp: pyindex_def pynth_def split: if_splits)

lemma wire_points_pynth: "wire_points pts is = Inr ps \<Longrightarrow> ps = map (pynth pts) is"
  by (induction "is" arbitrary: ps) (auto split: sum.splits dest: pyindex_pynth)

lemma planeproject_point2d:
  assumes "planebase W normal = Inr (x, y)"
  shows "planeproject W normal = Inr (map (point2d W x y) (w_indices W))"
proof -
  from assms obtain ps where ps: "wire_points (w_points W) (w_indices W) = Inr ps"
    by (auto simp: planebase_def split: sum.splits prod.splits)
  then have "ps = map (pynth (w_points W)) (w_indices W)" by (rule wire_points_pynth)
  then show ?thesis
    by (simp add: planeproject_def assms ps point2d_def[abs_def])
qed

lemma closed_map: "closed f (map P xs) = closed (\<lambda>a b. f (P a) (P b)) xs"
  by (simp add: closed_def cyc_pairs_def rotate1_map zip_map_map comp_def split_def)

lemma perpdot_anti: "perpdot a b + perpdot b a = 0"
  by (cases a; cases b) simp

lemma tri_perpdot:
  "tri (\<lambda>a b. perpdot (P a) (P b)) t = 2 * face_area P t"
proof (cases t)
  case (fields a b c)
  show ?thesis
    unfolding fields
    by (cases "P a"; cases "P b"; cases "P c") (simp add: area2_def algebra_simps)
qed

lemma sum_tri_area:
  "sum_list (map (tri (\<lambda>a b. perpdot (P a) (P b))) new) = 2 * sum_list (map (face_area P) new)"
  by (induction new) (simp_all add: tri_perpdot)

lemma fold_toggle: "fold toggle es S = {e. (e \<in> S) \<noteq> odd (count_list es e)}"
  by (induction es arbitrary: S) (auto simp: toggle_def)

definition ind :: "int edge \<Rightarrow> int \<Rightarrow> int \<Rightarrow> int" where
  "ind e a b = (if edgekey (a, b) = e then 1 else 0)"

lemma edgekey_sym: "edgekey (a, b) = edgekey (b, a)"
  by simp

lemma ind_sym: "ind e a b = ind e b a"
  unfolding ind_def by (simp only: edgekey_sym[of a b])

lemma count_closed: "int (count_list (map edgekey (cyc_pairs xs)) e) = closed (ind e) xs"
proof -
  have "int (count_list (map edgekey ps) e) = sum_list (map (\<lambda>(a, b). ind e a b) ps)" for ps
    by (induction ps) (auto simp: ind_def)
  then show ?thesis by (simp add: closed_def)
qed

lemma count_faces:
  "\<exists>k. int (count_list (map edgekey (concat (map face_edges new))) e)
        = sum_list (map (tri (ind e)) new) + 2 * k"
proof (induction new)
  case Nil
  then show ?case by simp
next
  case (Cons t new)
  then obtain k where k: "int (count_list (map edgekey (concat (map face_edges new))) e)
        = sum_list (map (tri (ind e)) new) + 2 * k" by blast
  obtain a b c where t: "t = (a, b, c)" by (cases t)
  have 1: "int (count_list (map edgekey (face_edges t)) e) = ind e a b + ind e b c + ind e c a"
    by (simp add: t ind_def)
  have 2: "tri (ind e) t = ind e a b + ind e b c - ind e c a"
    by (simp add: t ind_sym[of e a c])
  have "int (count_list (map edgekey (concat (map face_edges (t # new)))) e)
      = sum_list (map (tri (ind e)) (t # new)) + 2 * (k + ind e c a)"
    using 1 k by (simp add: 2 count_list_append del: face_edges.simps tri.simps)
  then show ?case by blast
qed

lemma succ_cycle:
  assumes "i < l" "j < l" "3 \<le> l" "i = Suc j mod l" "j = Suc i mod l"
  shows False
proof (cases "Suc j < l")
  case True
  then have i: "i = Suc j" using assms(4) by simp
  show False
  proof (cases "Suc i < l")
    case True
    then have "j = Suc i" using assms(5) by simp
    with i show False by simp
  next
    case False
    with assms(1) have "Suc i = l" by simp
    then have "j = 0" using assms(5) by simp
    with i \<open>Suc i = l\<close> assms(3) show False by simp
  qed
next
  case False
  with assms(2) have "Suc j = l" by simp
  then have "i = 0" using assms(4) by simp
  then have "j = 1" using assms(5) assms(3) by simp
  with \<open>Suc j = l\<close> assms(3) show False by simp
qed

lemma edgekey_eq: "edgekey (a, b) = edgekey (c, d) \<Longrightarrow> (a = c \<and> b = d) \<or> (a = d \<and> b = c)"
  by (auto split: if_splits)

lemma length_cyc_pairs [simp]: "length (cyc_pairs xs) = length xs"
  by (simp add: cyc_pairs_def)

lemma nth_cyc_pairs: "i < length xs \<Longrightarrow> cyc_pairs xs ! i = (xs ! i, xs ! (Suc i mod length xs))"
  by (simp add: cyc_pairs_def nth_rotate1)

lemma cyc_edges_distinct:
  assumes "distinct xs" "3 \<le> length xs"
  shows "distinct (map edgekey (cyc_pairs xs))"
proof -
  let ?l = "length xs"
  have "map edgekey (cyc_pairs xs) ! i \<noteq> map edgekey (cyc_pairs xs) ! j"
    if ij: "i < ?l" "j < ?l" "i \<noteq> j" for i j
  proof
    assume "map edgekey (cyc_pairs xs) ! i = map edgekey (cyc_pairs xs) ! j"
    then have "edgekey (xs ! i, xs ! (Suc i mod ?l)) = edgekey (xs ! j, xs ! (Suc j mod ?l))"
      using ij by (simp add: nth_cyc_pairs)
    then have "(xs ! i = xs ! j \<and> xs ! (Suc i mod ?l) = xs ! (Suc j mod ?l))
        \<or> (xs ! i = xs ! (Suc j mod ?l) \<and> xs ! (Suc i mod ?l) = xs ! j)"
      by (rule edgekey_eq)
    moreover have "xs ! i \<noteq> xs ! j"
      using ij assms(1) by (simp add: nth_eq_iff_index_eq)
    ultimately have e: "xs ! i = xs ! (Suc j mod ?l)" "xs ! (Suc i mod ?l) = xs ! j"
      by blast+
    have "0 < ?l" using ij by linarith
    then have m: "Suc i mod ?l < ?l" "Suc j mod ?l < ?l" by (rule mod_less_divisor)+
    have 1: "i = Suc j mod ?l"
      using e(1) nth_eq_iff_index_eq[OF assms(1) ij(1) m(2)] by blast
    have 2: "j = Suc i mod ?l"
      using e(2) nth_eq_iff_index_eq[OF assms(1) m(1) ij(2)] by blast
    show False
      by (rule succ_cycle[OF ij(1) ij(2) assms(2) 1 2])
  qed
  then show ?thesis
    by (simp add: distinct_conv_nth)
qed

lemma count_distinct: "distinct es \<Longrightarrow> odd (count_list es e) \<longleftrightarrow> e \<in> set es"
  by (induction es) auto

lemma Mesh_of_simps [simp]:
  "faces (Mesh_of pts fs) = fs" "points (Mesh_of pts fs) = pts"
  by (simp_all add: Mesh_of_def)

lemma triangulation_outline_general:
  assumes "planebase W normal = Inr (x, y)"
    and "distinct (map (point2d W x y) (w_indices W))"
    and "3 \<le> length (w_indices W)"
  shows "\<exists>m. triangulation_outline W normal = Inr m
      \<and> points m = w_points W
      \<and> length (faces m) = length (w_indices W) - 2
      \<and> sum_list (map (face_area (point2d W x y)) (faces m))
          = polygon_area (map (point2d W x y) (w_indices W))
      \<and> outlines_unoriented m = polygon_edges (w_indices W)"
proof -
  let ?P = "point2d W x y"
  let ?is = "w_indices W"
  let ?proj = "map ?P ?is"
  have pp: "planeproject W normal = Inr ?proj" using assms(1) by (rule planeproject_point2d)
  have l2: "2 \<le> length ?proj" using assms(3) by simp
  have "\<forall>i \<in> set [0 ..< length ?is]. i < length ?proj" by simp
  from scores_of_ok[OF assms(2) l2 this]
  obtain scores where sc: "scores_of ?proj [0 ..< length ?is] = Inr scores" by blast
  have d: "distinct ?is" using assms(2) by (simp add: distinct_map)
  have len: "length ?proj = length ?is" by simp
  have l2': "2 \<le> length ?is" using assms(3) by simp
  from clip_telescope[OF assms(2) len l2', of scores "[]" 0]
  obtain new w' a b where cl: "clip ?is ?proj scores [] 0 = Inr ([] @ new, w')"
    and n: "length new = length ?is - 2"
    and tr: "\<And>f :: int \<Rightarrow> int \<Rightarrow> real. closed f ?is = sum_list (map (tri f) new) + f a b + f b a"
    by blast
  from clip_telescope[OF assms(2) len l2', of scores "[]" 0]
  obtain new2 w2 a2 b2 where cl2: "clip ?is ?proj scores [] 0 = Inr ([] @ new2, w2)"
    and ti: "\<And>f :: int \<Rightarrow> int \<Rightarrow> int. closed f ?is = sum_list (map (tri f) new2) + f a2 b2 + f b2 a2"
    by blast
  from cl cl2 have new2: "new2 = new" by simp
  let ?m = "Mesh_of (w_points W) new"
  have res: "triangulation_outline W normal = Inr ?m"
    using cl by (simp add: triangulation_outline_def triangulation_outline_warn_def pp sc)
  have area: "sum_list (map (face_area ?P) new) = polygon_area ?proj"
  proof -
    have "polygon_area ?proj = closed perpdot ?proj / 2"
      by (simp add: polygon_area_def closed_def)
    also have "closed perpdot ?proj = closed (\<lambda>a b. perpdot (?P a) (?P b)) ?is"
      by (rule closed_map)
    also have "\<dots> = sum_list (map (tri (\<lambda>a b. perpdot (?P a) (?P b))) new)
          + (perpdot (?P a) (?P b) + perpdot (?P b) (?P a))"
      by (simp add: tr)
    also have "\<dots> = 2 * sum_list (map (face_area ?P) new)"
      by (simp only: perpdot_anti sum_tri_area add_0_right)
    finally show ?thesis by simp
  qed
  have out: "outlines_unoriented ?m = polygon_edges ?is"
  proof -
    have "odd (count_list (map edgekey (concat (map face_edges new))) e)
          \<longleftrightarrow> e \<in> set (map edgekey (cyc_pairs ?is))" for e
    proof -
      obtain k where k: "int (count_list (map edgekey (concat (map face_edges new))) e)
          = sum_list (map (tri (ind e)) new) + 2 * k"
        using count_faces by blast
      have "int (count_list (map edgekey (cyc_pairs ?is)) e)
          = sum_list (map (tri (ind e)) new) + 2 * ind e a2 b2"
        using ti[of "ind e"] by (simp add: count_closed new2 ind_sym[of e b2 a2])
      with k have "int (count_list (map edgekey (concat (map face_edges new))) e)
          = int (count_list (map edgekey (cyc_pairs ?is)) e) + 2 * (k - ind e a2 b2)"
        by (simp add: algebra_simps)
      then have "odd (int (count_list (map edgekey (concat (map face_edges new))) e))
          \<longleftrightarrow> odd (int (count_list (map edgekey (cyc_pairs ?is)) e))"
        by simp
      then have "odd (count_list (map edgekey (concat (map face_edges new))) e)
          \<longleftrightarrow> odd (count_list (map edgekey (cyc_pairs ?is)) e)"
        by simp
      also have "\<dots> \<longleftrightarrow> e \<in> set (map edgekey (cyc_pairs ?is))"
        by (rule count_distinct[OF cyc_edges_distinct[OF d assms(3)]])
      finally show ?thesis .
    qed
    then show ?thesis
      by (simp add: outlines_unoriented_def edges_oriented_def fold_toggle polygon_edges_def)
  qed
  show ?thesis
    using res n area out by (intro exI[of _ ?m]) simp
qed

section \<open>Ear clipping of the L-polygon and of a thin triangle\<close>

definition Lwire :: "unit Wire" where
  "Lwire = \<lparr>w_points = [(0, 0, 0), (2, 0, 0), (2, 1, 0), (1, 1, 0), (1, 2, 0), (0, 2, 0)],
     w_indices = [0, 1, 2, 3, 4, 5], w_tracks = None, w_groups = [()]\<rparr>"

definition Lproj :: "vec2 list" where
  "Lproj = [(0, 0), (2, 0), (2, 1), (1, 1), (1, 2), (0, 2)]"

lemma pyindex_more [simp]:
  "pyindex (x0 # x1 # x2 # x3 # x4 # xs) 4 = Inr x4"
  "pyindex (x0 # x1 # x2 # x3 # x4 # x5 # xs) 5 = Inr x5"
  by (simp_all add: pyindex_def)

lemma guessbase_L: "guessbase Lwire NoNormal = Inr ((1, 0, 0), (0, 1, 0), (0, 0, 1))"
  using thres_pos
  by (simp add: guessbase_def Lwire_def maxabs_def normalize_def noproject_def project_def)

lemma planebase_L: "planebase Lwire NoNormal = Inr ((1, 0, 0), (0, 1, 0))"
  by (simp add: planebase_def guessbase_L)
     (simp add: Lwire_def argmin_def Let_def)

lemma point2d_L: "map (point2d Lwire (1, 0, 0) (0, 1, 0)) (w_indices Lwire) = Lproj"
  by (simp add: Lwire_def point2d_def pynth_def project2_def Lproj_def)

definition sA :: real where "sA = 2 / (3 + sqrt 5)\<^sup>2"
definition sB :: real where "sB = 1 / (2 + sqrt 2)\<^sup>2"
definition sC :: real where "sC = 1 / (1 + sqrt 2 + sqrt 5)\<^sup>2"

lemma sqrt_pos_facts:
  "0 < 3 + sqrt 5" "0 < 2 + sqrt 2" "0 < 1 + sqrt 2 + sqrt 5"
  "3 + sqrt 5 \<noteq> 0" "2 + sqrt 2 \<noteq> 0" "1 + sqrt 2 + sqrt 5 \<noteq> 0"
proof -
  have "0 \<le> sqrt 5" "0 \<le> sqrt 2" by simp_all
  then show "0 < 3 + sqrt 5" "0 < 2 + sqrt 2" "0 < 1 + sqrt 2 + sqrt 5"
    "3 + sqrt 5 \<noteq> 0" "2 + sqrt 2 \<noteq> 0" "1 + sqrt 2 + sqrt 5 \<noteq> 0" by linarith+
qed

lemma sB_alt: "2 * sqrt 2 + 2 \<noteq> 0" "2 / (2 * sqrt 2 + 2)\<^sup>2 = 1 / (2 + sqrt 2)\<^sup>2"
proof -
  have p: "0 \<le> sqrt 2" by simp
  then show "2 * sqrt 2 + 2 \<noteq> 0" by linarith
  have "(2 * sqrt 2 + 2)\<^sup>2 = 2 * (2 + sqrt 2)\<^sup>2"
    by (simp add: power2_eq_square algebra_simps)
  moreover have "2 + sqrt 2 \<noteq> 0" using p by linarith
  then have "(2 + sqrt 2)\<^sup>2 \<noteq> 0" by simp
  ultimately show "2 / (2 * sqrt 2 + 2)\<^sup>2 = 1 / (2 + sqrt 2)\<^sup>2"
    by simp
qed

lemmas score_eval = score_def Let_def aesthetic_def inside_def

lemma s0_0: "score Lproj 0 = Inr NegInf"
  using sqrt8_pos
  by (simp add: Lproj_def score_eval)

lemma s0_1: "score Lproj (Suc 0) = Inr (Fin sA)"
  using sqrt_pos_facts
  by (simp add: Lproj_def score_eval sA_def)

lemma s0_2: "score Lproj 2 = Inr (Fin sB)"
  using sqrt_pos_facts
  by (simp add: Lproj_def score_eval sB_def)

lemma s0_3: "score Lproj 3 = Inr (Fin (- sB))"
  using sqrt_pos_facts
  by (simp add: Lproj_def score_eval sB_def)

lemma s0_4: "score Lproj 4 = Inr (Fin sB)"
  using sqrt_pos_facts
  by (simp add: Lproj_def score_eval sB_def)

lemma s0_5: "score Lproj 5 = Inr (Fin sA)"
  using sqrt_pos_facts
  by (simp add: Lproj_def score_eval sA_def)


lemma upt_6: "[0 ..< 6] = [0, 1, 2, 3, 4, 5]"
  by (simp add: upt_conv_Cons)

lemma scores_L:
  "scores_of Lproj [0, 1, 2, 3, 4, 5] = Inr [NegInf, Fin sA, Fin sB, Fin (- sB), Fin sB, Fin sA]"
  by (simp add: s0_0 s0_1 s0_2 s0_3 s0_4 s0_5)

lemma s1_1: "score [(0, 0), (2, 0), (1, 1), (1, 2), (0, 2)] (Suc 0) = Inr (Fin sB)"
  using sqrt_pos_facts
  by (simp add: score_eval sB_def sB_alt)

lemma s1_2: "score [(0, 0), (2, 0), (1, 1), (1, 2), (0, 2)] 2 = Inr (Fin (- sC))"
  using sqrt_pos_facts
  by (simp add: score_eval sC_def)

lemma s2_0: "score [(0, 0), (1, 1), (1, 2), (0, 2)] 0 = Inr (Fin sB)"
  using sqrt_pos_facts
  by (simp add: score_eval sB_def sB_alt)

lemma s2_1: "score [(0, 0), (1, 1), (1, 2), (0, 2)] (Suc 0) = Inr (Fin sC)"
  using sqrt_pos_facts
  by (simp add: score_eval sC_def)

lemma s3_2: "score [(1, 1), (1, 2), (0, 2)] 2 = Inr (Fin sB)"
  using sqrt_pos_facts
  by (simp add: score_eval sB_def)

lemma s3_0: "score [(1, 1), (1, 2), (0, 2)] 0 = Inr (Fin sB)"
  using sqrt_pos_facts
  by (simp add: score_eval sB_def)

lemma s4_1: "score [(1, 2), (0, 2)] (Suc 0) = Inr (Fin 0)"
  by (simp add: score_eval)

lemma s4_0: "score [(1, 2), (0, 2)] 0 = Inr (Fin 0)"
  by (simp add: score_eval)

lemma sqrt2_less: "sqrt 2 < 3 / 2"
proof -
  have "sqrt 2 < sqrt ((3 / 2)\<^sup>2)"
    by (rule real_sqrt_less_mono) (simp add: power2_eq_square)
  then show ?thesis by simp
qed

lemma sqrt5_gt: "2 < sqrt 5"
proof -
  have "sqrt (2\<^sup>2) < sqrt 5" by (rule real_sqrt_less_mono) simp
  then show ?thesis by simp
qed

lemma s_pos: "0 < sA" "0 < sB" "0 < sC"
  using sqrt_pos_facts by (simp_all add: sA_def sB_def sC_def)

lemma sA_less_sB: "sA < sB"
proof -
  have "0 \<le> sqrt 2" by simp
  then have p: "0 < 2 * sqrt 2 + 2" by linarith
  have "2 * sqrt 2 + 2 < 3 + sqrt 5" using sqrt2_less sqrt5_gt by linarith
  with p have "(2 * sqrt 2 + 2)\<^sup>2 < (3 + sqrt 5)\<^sup>2"
    by (intro power_strict_mono) simp_all
  moreover have "0 < (2 * sqrt 2 + 2)\<^sup>2" using p by simp
  ultimately have "1 / (3 + sqrt 5)\<^sup>2 < 1 / (2 * sqrt 2 + 2)\<^sup>2"
    by (simp add: frac_less2)
  then have "2 / (3 + sqrt 5)\<^sup>2 < 2 / (2 * sqrt 2 + 2)\<^sup>2"
    by simp
  then show ?thesis by (simp add: sA_def sB_def sB_alt)
qed

lemma sC_less_sB: "sC < sB"
proof -
  have "0 \<le> sqrt 2" by simp
  then have p: "0 < 2 + sqrt 2" by linarith
  have "2 + sqrt 2 < 1 + sqrt 2 + sqrt 5" using sqrt5_gt by linarith
  with p have "(2 + sqrt 2)\<^sup>2 < (1 + sqrt 2 + sqrt 5)\<^sup>2"
    by (intro power_strict_mono) simp_all
  moreover have "0 < (2 + sqrt 2)\<^sup>2" using p by simp
  ultimately have "1 / (1 + sqrt 2 + sqrt 5)\<^sup>2 < 1 / (2 + sqrt 2)\<^sup>2"
    by (simp add: frac_less2)
  then show ?thesis by (simp add: sC_def sB_def)
qed

lemma NUMPREC_pos: "0 < NUMPREC"
  by (simp add: NUMPREC_def)

lemma s_cmp:
  "\<not> sB < sA" "\<not> sB < - sB" "\<not> sB < - sC" "\<not> sB < - NUMPREC" "- sB < sA"
  "\<not> sB < 0" "\<not> sB < sC"
  using s_pos sA_less_sB sC_less_sB NUMPREC_pos by linarith+

lemma am1: "argmax [NegInf, Fin sA, Fin sB, Fin (- sB), Fin sB, Fin sA] = 2"
  by (simp add: argmax_def sA_less_sB s_cmp)

lemma am2: "argmax [NegInf, Fin sB, Fin (- sC), Fin sB, Fin sA] = 1"
  by (simp add: argmax_def sA_less_sB s_cmp)

lemma am3: "argmax [Fin sB, Fin sC, Fin sB, Fin sA] = 0"
  by (simp add: argmax_def s_cmp)

lemma am4: "argmax [Fin sB, Fin sB, Fin sB] = 0"
  by (simp add: argmax_def)

lemmas clip_step = Let_def pop_at_def s_cmp

lemma clip_L1:
  "clip [0, 1, 2, 3, 4, 5] Lproj [NegInf, Fin sA, Fin sB, Fin (- sB), Fin sB, Fin sA] [] 0
   = clip [0, 1, 3, 4, 5] [(0, 0), (2, 0), (1, 1), (1, 2), (0, 2)]
       [NegInf, Fin sB, Fin (- sC), Fin sB, Fin sA] [(1, 2, 3)] 0"
  unfolding Lproj_def
  by (subst clip.simps) (simp add: clip_step am1 s1_1 s1_2)

lemma clip_L2:
  "clip [0, 1, 3, 4, 5] [(0, 0), (2, 0), (1, 1), (1, 2), (0, 2)]
       [NegInf, Fin sB, Fin (- sC), Fin sB, Fin sA] [(1, 2, 3)] 0
   = clip [0, 3, 4, 5] [(0, 0), (1, 1), (1, 2), (0, 2)]
       [Fin sB, Fin sC, Fin sB, Fin sA] [(1, 2, 3), (0, 1, 3)] 0"
  by (subst clip.simps) (simp add: clip_step am2 s2_0 s2_1)

lemma clip_L3:
  "clip [0, 3, 4, 5] [(0, 0), (1, 1), (1, 2), (0, 2)]
       [Fin sB, Fin sC, Fin sB, Fin sA] [(1, 2, 3), (0, 1, 3)] 0
   = clip [3, 4, 5] [(1, 1), (1, 2), (0, 2)]
       [Fin sB, Fin sB, Fin sB] [(1, 2, 3), (0, 1, 3), (5, 0, 3)] 0"
  by (subst clip.simps) (simp add: clip_step am3 s3_0 s3_2 s3_2[unfolded numeral_2_eq_2])

lemma clip_L4:
  "clip [3, 4, 5] [(1, 1), (1, 2), (0, 2)]
       [Fin sB, Fin sB, Fin sB] [(1, 2, 3), (0, 1, 3), (5, 0, 3)] 0
   = clip [4, 5] [(1, 2), (0, 2)]
       [Fin 0, Fin 0] [(1, 2, 3), (0, 1, 3), (5, 0, 3), (5, 3, 4)] 0"
  by (subst clip.simps) (simp add: clip_step am4 s4_0 s4_1)

lemma clip_L:
  "clip [0, 1, 2, 3, 4, 5] Lproj [NegInf, Fin sA, Fin sB, Fin (- sB), Fin sB, Fin sA] [] 0
   = Inr ([(1, 2, 3), (0, 1, 3), (5, 0, 3), (5, 3, 4)], 0)"
  unfolding clip_L1 clip_L2 clip_L3 clip_L4
  by (subst clip.simps) simp

definition sliver :: "unit Wire" where
  "sliver = \<lparr>w_points = [(0, 0, 0), (1 / 10 ^ 13, 0, 0), (0, 1, 0)],
     w_indices = [0, 1, 2], w_tracks = None, w_groups = [()]\<rparr>"

definition L_interior :: "vec2 \<Rightarrow> bool" where
  "L_interior p = (case p of (x, y) \<Rightarrow> 0 < x \<and> 0 < y \<and> ((x < 2 \<and> y < 1) \<or> (x < 1 \<and> y < 2)))"

definition along :: "vec2 \<Rightarrow> vec2 \<Rightarrow> real \<Rightarrow> vec2" where
  "along a b t = (fst a + t * (fst b - fst a), snd a + t * (snd b - snd a))"

definition L_faces :: "int face list" where
  "L_faces = [(1, 2, 3), (0, 1, 3), (5, 0, 3), (5, 3, 4)]"

lemma guessbase_sliver: "guessbase sliver NoNormal = Inl ValueError"
  by (simp add: guessbase_def sliver_def maxabs_def thres_def NUMPREC_def)

lemma outline_sliver: "triangulation_outline sliver NoNormal = Inr (Mesh_of [] [])"
  by (simp add: triangulation_outline_def triangulation_outline_warn_def planeproject_def
        planebase_def guessbase_sliver)

lemma outline_L: "triangulation_outline Lwire NoNormal = Inr (Mesh_of (w_points Lwire) L_faces)"
proof -
  have pp: "planeproject Lwire NoNormal = Inr Lproj"
    using planeproject_point2d[OF planebase_L] by (simp only: point2d_L)
  have h: "w_indices Lwire = [0, 1, 2, 3, 4, 5]" by (simp add: Lwire_def)
  have l: "length [0, 1, 2, 3, 4, 5 :: int] = 6" by simp
  show ?thesis
    unfolding triangulation_outline_def triangulation_outline_warn_def pp h l sum.case
      upt_6 scores_L clip_L prod.case L_faces_def ..
qed

lemma polygon_area_L: "polygon_area Lproj = 3"
  by (simp add: polygon_area_def cyc_pairs_def Lproj_def)

lemma polygon_edges_L: "polygon_edges [0, 1, 2, 3, 4, 5] = {(0, 1), (1, 2), (2, 3), (3, 4), (4, 5), (0, 5)}"
  by (simp add: polygon_edges_def cyc_pairs_def) 

lemma L_faces_area: "sum_list (map (face_area (pynth Lproj)) L_faces) = 3"
  by (simp add: L_faces_def Lproj_def pynth_def area2_def)

lemma L_faces_edges:
  "set (map edgekey (concat (map face_edges L_faces)))
   = polygon_edges [0, 1, 2, 3, 4, 5] \<union> {(1, 3), (0, 3), (3, 5)}"
  unfolding polygon_edges_L by (auto simp: L_faces_def)

lemma L_diagonals:
  "0 < t \<Longrightarrow> t < 1 \<Longrightarrow>
   L_interior (along (2, 0) (1, 1) t) \<and> L_interior (along (0, 0) (1, 1) t)
   \<and> L_interior (along (0, 2) (1, 1) t)"
  by (simp add: L_interior_def along_def)

text \<open>
  Claim C2, as stated, fails on the thin triangle \<open>(0,0,0), (1e-13,0,0), (0,1,0)\<close>: its
  second point is closer to the first than the threshold of \<open>guessbase\<close>, the third point
  is taken for the \<open>x\<close> direction and no point is left for \<open>y\<close>; \<open>planeproject\<close> raises
  \<open>ValueError\<close> and \<open>triangulation_outline\<close> returns the empty mesh, whose faces have area
  0 and whose outline is empty, while the triangle has area \<open>5e-14\<close> and three edges.
\<close>

theorem triangulation_outline_sliver:
  "triangulation_outline sliver NoNormal = Inr (Mesh_of [] [] :: (int, unit option) Mesh)
   \<and> sum_list (map (face_area (pynth [(0, 0), (1 / 10 ^ 13, 0), (0, 1)]))
         (faces (Mesh_of [] [] :: (int, unit option) Mesh))) = 0
   \<and> polygon_area [(0, 0), (1 / 10 ^ 13, 0), (0, 1)] = 1 / (2 * 10 ^ 13)
   \<and> outlines_unoriented (Mesh_of [] [] :: (int, unit option) Mesh) = {}
   \<and> polygon_edges (w_indices sliver) = {(0, 1), (1, 2), (0, 2)}"
proof (intro conjI)
  show "triangulation_outline sliver NoNormal = Inr (Mesh_of [] [] :: (int, unit option) Mesh)"
    by (rule outline_sliver)
  show "sum_list (map (face_area (pynth [(0, 0), (1 / 10 ^ 13, 0), (0, 1)]))
         (faces (Mesh_of [] [] :: (int, unit option) Mesh))) = 0"
    by simp
  show "polygon_area [(0, 0), (1 / 10 ^ 13, 0), (0, 1)] = 1 / (2 * 10 ^ 13)"
    by (simp add: polygon_area_def cyc_pairs_def)
  show "outlines_unoriented (Mesh_of [] [] :: (int, unit option) Mesh) = {}"
    by (simp add: outlines_unoriented_def edges_oriented_def)
  show "polygon_edges (w_indices sliver) = {(0, 1), (1, 2), (0, 2)}"
    by (auto simp: polygon_edges_def cyc_pairs_def sliver_def)
qed

text \<open>
  Claim C2, amended.  For every wire of at least three points for which \<open>planeproject\<close>
  finds a base \<open>(x, y)\<close> and whose projected points are pairwise distinct,
  \<open>triangulation_outline\<close> returns a mesh on the points of the wire, with two faces less
  than points, whose faces' signed areas in the projection sum to the signed area of the
  projected polygon, and whose unoriented outline is the set of the edges of the polygon.
  When \<open>planeproject\<close> raises \<open>ValueError\<close>, \<open>triangulation_outline\<close> returns the empty mesh.
  For the L-polygon the faces are \<open>(1,2,3), (0,1,3), (5,0,3), (5,3,4)\<close>, of total area 3;
  their edges are the six edges of the L and the diagonals \<open>{1,3}\<close>, \<open>{0,3}\<close>, \<open>{3,5}\<close>, which
  lie inside the L.
\<close>

theorem triangulation_outline_amended:
  "(planebase W normal = Inr (x, y) \<and> distinct (map (point2d W x y) (w_indices W))
      \<and> 3 \<le> length (w_indices W) \<longrightarrow>
    (\<exists>m. triangulation_outline W normal = Inr m
      \<and> points m = w_points W
      \<and> length (faces m) = length (w_indices W) - 2
      \<and> sum_list (map (face_area (point2d W x y)) (faces m))
          = polygon_area (map (point2d W x y) (w_indices W))
      \<and> outlines_unoriented m = polygon_edges (w_indices W)))
   \<and> (planeproject W' normal' = Inl ValueError \<longrightarrow>
        triangulation_outline W' normal' = Inr (Mesh_of [] []))
   \<and> triangulation_outline Lwire NoNormal = Inr (Mesh_of (w_points Lwire) L_faces)
   \<and> length L_faces = 4
   \<and> sum_list (map (face_area (pynth Lproj)) L_faces) = 3
   \<and> set (map edgekey (concat (map face_edges L_faces)))
       = polygon_edges [0, 1, 2, 3, 4, 5] \<union> {(1, 3), (0, 3), (3, 5)}
   \<and> (\<forall>t. 0 < t \<and> t < 1 \<longrightarrow>
         L_interior (along (2, 0) (1, 1) t) \<and> L_interior (along (0, 0) (1, 1) t)
         \<and> L_interior (along (0, 2) (1, 1) t))"
proof (intro conjI impI allI)
  assume "planebase W normal = Inr (x, y) \<and> distinct (map (point2d W x y) (w_indices W))
      \<and> 3 \<le> length (w_indices W)"
  then show "\<exists>m. triangulation_outline W normal = Inr m
      \<and> points m = w_points W
      \<and> length (faces m) = length (w_indices W) - 2
      \<and> sum_list (map (face_area (point2d W x y)) (faces m))
          = polygon_area (map (point2d W x y) (w_indices W))
      \<and> outlines_unoriented m = polygon_edges (w_indices W)"
    using triangulation_outline_general[of W normal x y] by blast
next
  assume "planeproject W' normal' = Inl ValueError"
  then show "triangulation_outline W' normal' = Inr (Mesh_of [] [])"
    by (simp add: triangulation_outline_def triangulation_outline_warn_def)
next
  show "triangulation_outline Lwire NoNormal = Inr (Mesh_of (w_points Lwire) L_faces)"
    by (rule outline_L)
  show "length L_faces = 4" by (simp add: L_faces_def)
  show "sum_list (map (face_area (pynth Lproj)) L_faces) = 3" by (rule L_faces_area)
  show "set (map edgekey (concat (map face_edges L_faces)))
       = polygon_edges [0, 1, 2, 3, 4, 5] \<union> {(1, 3), (0, 3), (3, 5)}"
    by (rule L_faces_edges)
next
  fix t :: real
  assume t: "0 < t \<and> t < 1"
  then have i: "L_interior (along (2, 0) (1, 1) t) \<and> L_interior (along (0, 0) (1, 1) t)
         \<and> L_interior (along (0, 2) (1, 1) t)"
    using L_diagonals[of t] by blast
  from i show "L_interior (along (2, 0) (1, 1) t)" by blast
  from i show "L_interior (along (0, 0) (1, 1) t)" by blast
  from i show "L_interior (along (0, 2) (1, 1) t)" by blast
qed

theorem triangulation_outline_witness:
  "planebase Lwire NoNormal = Inr ((1, 0, 0), (0, 1, 0))
   \<and> distinct (map (point2d Lwire (1, 0, 0) (0, 1, 0)) (w_indices Lwire))
   \<and> 3 \<le> length (w_indices Lwire)
   \<and> (\<exists>m :: (int, unit option) Mesh. triangulation_outline Lwire NoNormal = Inr m
        \<and> points m = w_points Lwire
        \<and> length (faces m) = 4
        \<and> sum_list (map (face_area (point2d Lwire (1, 0, 0) (0, 1, 0))) (faces m)) = 3
        \<and> outlines_unoriented m = {(0, 1), (1, 2), (2, 3), (3, 4), (4, 5), (0, 5)})
   \<and> planeproject sliver NoNormal = Inl ValueError
   \<and> triangulation_outline sliver NoNormal = Inr (Mesh_of [] [] :: (int, unit option) Mesh)"
proof -
  have h: "planebase Lwire NoNormal = Inr ((1, 0, 0), (0, 1, 0))
      \<and> distinct (map (point2d Lwire (1, 0, 0) (0, 1, 0)) (w_indices Lwire))
      \<and> 3 \<le> length (w_indices Lwire)"
    by (simp add: planebase_L point2d_L) (simp add: Lproj_def Lwire_def)
  have v: "planeproject sliver NoNormal = Inl ValueError"
    by (simp add: planeproject_def planebase_def guessbase_sliver)
  have i: "w_indices Lwire = [0, 1, 2, 3, 4, 5]" by (simp add: Lwire_def)
  from triangulation_outline_amended[of Lwire NoNormal "(1, 0, 0)" "(0, 1, 0)" sliver NoNormal] h
  have "\<exists>m :: (int, unit option) Mesh. triangulation_outline Lwire NoNormal = Inr m
      \<and> points m = w_points Lwire
      \<and> length (faces m) = length (w_indices Lwire) - 2
      \<and> sum_list (map (face_area (point2d Lwire (1, 0, 0) (0, 1, 0))) (faces m))
          = polygon_area (map (point2d Lwire (1, 0, 0) (0, 1, 0)) (w_indices Lwire))
      \<and> outlines_unoriented m = polygon_edges (w_indices Lwire)"
    by blast
  then have "\<exists>m :: (int, unit option) Mesh. triangulation_outline Lwire NoNormal = Inr m
        \<and> points m = w_points Lwire
        \<and> length (faces m) = 4
        \<and> sum_list (map (face_area (point2d Lwire (1, 0, 0) (0, 1, 0))) (faces m)) = 3
        \<and> outlines_unoriented m = {(0, 1), (1, 2), (2, 3), (3, 4), (4, 5), (0, 5)}"
    unfolding point2d_L polygon_area_L unfolding i polygon_edges_L
    by (simp add: eval_nat_numeral)
  moreover
  from triangulation_outline_amended[of Lwire NoNormal "(1, 0, 0)" "(0, 1, 0)" sliver NoNormal] v
  have "triangulation_outline sliver NoNormal = Inr (Mesh_of [] [] :: (int, unit option) Mesh)"
    by blast
  ultimately show ?thesis using h v by blast
qed

section \<open>Merging close points twice\<close>

text \<open>
  The invariant of the set while \<open>mergeclose\<close> fills it: the dictionary is the inverse of
  the cell function on the buffer, so the cells of the buffer are pairwise distinct.
\<close>

definition hp_inv :: "hashing_PointSet \<Rightarrow> bool" where
  "hp_inv ps = (\<forall>k j. hp_dict ps k = Some j \<longleftrightarrow>
      (j < length (hp_points ps) \<and> floor_cell (hp_cellsize ps) (hp_points ps ! j) = k))"

lemma hp_invD1:
  "hp_inv ps \<Longrightarrow> hp_dict ps k = Some j \<Longrightarrow>
   j < length (hp_points ps) \<and> floor_cell (hp_cellsize ps) (hp_points ps ! j) = k"
  unfolding hp_inv_def by blast

lemma hp_invD2:
  "hp_inv ps \<Longrightarrow> j < length (hp_points ps) \<Longrightarrow>
   hp_dict ps (floor_cell (hp_cellsize ps) (hp_points ps ! j)) = Some j"
  unfolding hp_inv_def by blast

lemma hp_invI:
  "(\<And>k j. hp_dict ps k = Some j \<longleftrightarrow>
      (j < length (hp_points ps) \<and> floor_cell (hp_cellsize ps) (hp_points ps ! j) = k))
   \<Longrightarrow> hp_inv ps"
  unfolding hp_inv_def by blast

lemma hp_inv_init: "hp_inv (hashing_PointSet_init c)"
  by (simp add: hp_inv_def hashing_PointSet_init_def)

lemma add_cellsize: "hp_cellsize (snd (hashing_PointSet_add ps p)) = hp_cellsize ps"
  by (simp add: hashing_PointSet_add_def Let_def split: option.splits)

lemma add_inv:
  assumes "hp_inv ps"
  shows "hp_inv (snd (hashing_PointSet_add ps p))"
proof (cases "hp_dict ps (floor_cell (hp_cellsize ps) p)")
  case (Some i)
  with assms show ?thesis by (simp add: hashing_PointSet_add_def)
next
  case None
  let ?n = "length (hp_points ps)"
  let ?k = "floor_cell (hp_cellsize ps) p"
  have fresh: "floor_cell (hp_cellsize ps) (hp_points ps ! j) \<noteq> ?k" if "j < ?n" for j
  proof
    assume "floor_cell (hp_cellsize ps) (hp_points ps ! j) = ?k"
    with hp_invD2[OF assms that] have "hp_dict ps ?k = Some j" by simp
    with None show False by simp
  qed
  have "(((hp_dict ps)(?k \<mapsto> ?n)) k = Some j) \<longleftrightarrow>
        (j < Suc ?n \<and> floor_cell (hp_cellsize ps) ((hp_points ps @ [p]) ! j) = k)" for k j
  proof (cases "j < ?n")
    case True
    then have "((hp_dict ps) k = Some j) \<longleftrightarrow> floor_cell (hp_cellsize ps) (hp_points ps ! j) = k"
      using hp_invD1[OF assms, of k j] hp_invD2[OF assms, of j] by auto
    with True fresh[OF True] show ?thesis by (auto simp: nth_append)
  next
    case False
    have "hp_dict ps k \<noteq> Some j" using False hp_invD1[OF assms, of k j] by auto
    with False show ?thesis by (auto simp: nth_append)
  qed
  then have "hp_inv (ps\<lparr>hp_points := hp_points ps @ [p], hp_dict := (hp_dict ps)(?k \<mapsto> ?n)\<rparr>)"
    by (intro hp_invI) simp
  with None show ?thesis
    by (simp add: hashing_PointSet_add_def)
qed

lemma hp_inv_distinct:
  assumes "hp_inv ps"
  shows "distinct (map (floor_cell (hp_cellsize ps)) (hp_points ps))"
proof -
  have "i = j" if "i < length (hp_points ps)" "j < length (hp_points ps)"
    "floor_cell (hp_cellsize ps) (hp_points ps ! i) = floor_cell (hp_cellsize ps) (hp_points ps ! j)"
    for i j
  proof -
    let ?k = "floor_cell (hp_cellsize ps) (hp_points ps ! j)"
    have "hp_dict ps ?k = Some i"
      using hp_invD2[OF assms that(1)] that(3) by simp
    moreover have "hp_dict ps ?k = Some j"
      using hp_invD2[OF assms that(2)] by simp
    ultimately show ?thesis by simp
  qed
  then show ?thesis
    by (auto simp: distinct_conv_nth)
qed

lemma loop_inv:
  "hp_inv ps \<Longrightarrow> hp_inv (fst (mergeclose_loop pts is ps merges))
     \<and> hp_cellsize (fst (mergeclose_loop pts is ps merges)) = hp_cellsize ps"
proof (induction "is" arbitrary: ps merges)
  case Nil
  then show ?case by simp
next
  case (Cons i "is")
  obtain used ps' where a: "hashing_PointSet_add ps (pts ! i) = (used, ps')"
    by (cases "hashing_PointSet_add ps (pts ! i)")
  have "hp_inv ps'" "hp_cellsize ps' = hp_cellsize ps"
    using add_inv[OF Cons.prems, of "pts ! i"] add_cellsize[of ps "pts ! i"] a by simp_all
  with Cons.IH[of ps'] show ?case by (simp add: a)
qed

lemma loop_fixed:
  assumes d: "distinct (map (floor_cell c) pts)"
  shows "n = length pts - i \<Longrightarrow> i \<le> length pts \<Longrightarrow> hp_inv ps \<Longrightarrow> hp_cellsize ps = c \<Longrightarrow>
     hp_points ps = take i pts \<Longrightarrow>
     snd (mergeclose_loop pts [i ..< length pts] ps merges) = merges
     \<and> hp_points (fst (mergeclose_loop pts [i ..< length pts] ps merges)) = pts"
proof (induction n arbitrary: i ps)
  case 0
  then show ?case by simp
next
  case (Suc n)
  then have il: "i < length pts" by simp
  let ?k = "floor_cell c (pts ! i)"
  have "hp_dict ps ?k = None"
  proof (cases "hp_dict ps ?k")
    case None
    then show ?thesis .
  next
    case (Some j)
    with hp_invD1[OF Suc.prems(3), of ?k j] Suc.prems il
    have j: "j < i" "floor_cell c (pts ! j) = ?k"
      by auto
    with il d have "j = i"
      using nth_eq_iff_index_eq[of "map (floor_cell c) pts" j i] by simp
    with j show ?thesis by simp
  qed
  then have a: "hashing_PointSet_add ps (pts ! i)
      = (i, ps\<lparr>hp_points := take i pts @ [pts ! i], hp_dict := (hp_dict ps)(?k \<mapsto> i)\<rparr>)"
    using Suc.prems il by (simp add: hashing_PointSet_add_def)
  let ?ps' = "ps\<lparr>hp_points := take i pts @ [pts ! i], hp_dict := (hp_dict ps)(?k \<mapsto> i)\<rparr>"
  have inv': "hp_inv ?ps'"
    using add_inv[OF Suc.prems(3), of "pts ! i"] a by simp
  have pts': "hp_points ?ps' = take (Suc i) pts"
    using il by (simp add: take_Suc_conv_app_nth)
  have "snd (mergeclose_loop pts [Suc i ..< length pts] ?ps' merges) = merges
     \<and> hp_points (fst (mergeclose_loop pts [Suc i ..< length pts] ?ps' merges)) = pts"
    using Suc.prems il by (intro Suc.IH inv' pts') simp_all
  then show ?case
    using il by (simp add: upt_conv_Cons a)
qed

lemma mergeclose_merges_distinct:
  assumes "mergeclose_merges (Some limit) start pts = (ps, merges)"
  shows "distinct (map (floor_cell limit) (hp_points ps))"
proof -
  have i: "hp_inv (hashing_PointSet_init limit)" by (rule hp_inv_init)
  from loop_inv[OF i, of pts "[start ..< length pts]" Map.empty] assms
  have "hp_inv ps" "hp_cellsize ps = limit"
    by (simp_all add: mergeclose_merges_def hashing_PointSet_init_def)
  with hp_inv_distinct[of ps] show ?thesis by simp
qed

lemma mergeclose_merges_fixed:
  assumes "distinct (map (floor_cell limit) pts)"
  shows "\<exists>ps. mergeclose_merges (Some limit) 0 pts = (ps, Map.empty) \<and> hp_points ps = pts"
proof -
  have "snd (mergeclose_loop pts [0 ..< length pts] (hashing_PointSet_init limit) Map.empty) = Map.empty
     \<and> hp_points (fst (mergeclose_loop pts [0 ..< length pts] (hashing_PointSet_init limit) Map.empty)) = pts"
    by (rule loop_fixed[OF assms refl _ hp_inv_init])
       (simp_all add: hashing_PointSet_init_def)
  then show ?thesis
    by (cases "mergeclose_loop pts [0 ..< length pts] (hashing_PointSet_init limit) Map.empty")
       (simp add: mergeclose_merges_def)
qed

definition face_nondeg :: "'i face \<Rightarrow> bool" where
  "face_nondeg f = (case f of (a, b, c) \<Rightarrow> a \<noteq> b \<and> b \<noteq> c \<and> c \<noteq> a)"

lemma merges_get_empty [simp]: "merges_get Map.empty k = k"
  by (simp add: merges_get_def)

lemma mergepoints_loop_nondeg:
  "mergepoints_loop merges fs ts = Inr (fs', ts') \<Longrightarrow> \<forall>f\<in>set fs'. face_nondeg f"
proof (induction merges fs ts arbitrary: fs' ts' rule: mergepoints_loop.induct)
  case (1 merges ts)
  then show ?case by simp
next
  case (2 merges a b c fs ts)
  let ?f = "(merges_get merges a, merges_get merges b, merges_get merges c)"
  show ?case
  proof (cases "face_nondeg ?f")
    case True
    with "2.prems" obtain fs1 ts1 where
      r: "mergepoints_loop merges fs (tl ts) = Inr (fs1, ts1)" and fs': "fs' = ?f # fs1"
      by (auto simp: face_nondeg_def Let_def split: sum.splits)
    have "\<forall>f\<in>set fs1. face_nondeg f"
      using "2.IH"(2)[OF refl _ r] True by (simp add: face_nondeg_def)
    with True fs' show ?thesis by simp
  next
    case False
    with "2.prems" obtain t ts0 where ts: "ts = t # ts0"
      and r: "mergepoints_loop merges fs ts0 = Inr (fs', ts')"
      by (auto simp: face_nondeg_def Let_def split: list.splits)
    show ?thesis
      using "2.IH"(1)[OF refl _ ts r] False by (simp add: face_nondeg_def)
  qed
qed

lemma mergepoints_loop_empty:
  "\<forall>f\<in>set fs. face_nondeg f \<Longrightarrow> mergepoints_loop Map.empty fs ts = Inr (fs, ts)"
proof (induction fs arbitrary: ts)
  case Nil
  then show ?case by simp
next
  case (Cons f fs)
  obtain a b c where f: "f = (a, b, c)" by (cases f)
  from Cons.prems have n: "a \<noteq> b" "b \<noteq> c" "c \<noteq> a" and rest: "\<forall>f\<in>set fs. face_nondeg f"
    by (simp_all add: f face_nondeg_def)
  show ?case
    using n Cons.IH[OF rest, of "tl ts"] by (cases ts) (simp_all add: f)
qed

lemma mergeclose_idempotent_mesh:
  assumes "mergeclose (Some limit) 0 m = Inr (r, m1)"
  shows "mergeclose (Some limit) 0 m1 = Inr (Map.empty, m1)"
proof -
  obtain ps merges where mm: "mergeclose_merges (Some limit) 0 (points m) = (ps, merges)"
    by (cases "mergeclose_merges (Some limit) 0 (points m)")
  with assms obtain fs ts where
    l: "mergepoints_loop merges (faces m) (tracks m) = Inr (fs, ts)"
    and m1: "m1 = m\<lparr>faces := fs, tracks := ts, points := hp_points ps\<rparr>"
    by (auto simp: mergeclose_def mergepoints_def split: sum.splits)
  have d: "distinct (map (floor_cell limit) (points m1))"
    using mergeclose_merges_distinct[OF mm] by (simp add: m1)
  from mergeclose_merges_fixed[OF d] obtain ps2 where
    f: "mergeclose_merges (Some limit) 0 (points m1) = (ps2, Map.empty)" "hp_points ps2 = points m1"
    by blast
  have "\<forall>f\<in>set (faces m1). face_nondeg f"
    using mergepoints_loop_nondeg[OF l] by (simp add: m1)
  then have "mergepoints_loop Map.empty (faces m1) (tracks m1) = Inr (faces m1, tracks m1)"
    by (rule mergepoints_loop_empty)
  then show ?thesis
    by (simp add: mergeclose_def mergepoints_def f)
qed

lemma Web_mergepoints_loop_nondeg:
  "Web_mergepoints_loop merges es ts = Inr (es', ts') \<Longrightarrow> \<forall>e\<in>set es'. fst e \<noteq> snd e"
proof (induction merges es ts arbitrary: es' ts' rule: Web_mergepoints_loop.induct)
  case (1 merges ts)
  then show ?case by simp
next
  case (2 merges a b es ts)
  let ?e = "(merges_get merges a, merges_get merges b)"
  show ?case
  proof (cases "merges_get merges a = merges_get merges b")
    case False
    with "2.prems" obtain es1 ts1 where
      r: "Web_mergepoints_loop merges es (tl ts) = Inr (es1, ts1)" and es': "es' = ?e # es1"
      by (auto simp: Let_def split: sum.splits)
    have "\<forall>e\<in>set es1. fst e \<noteq> snd e"
      using "2.IH"(2)[OF refl _ r] False by simp
    with False es' show ?thesis by simp
  next
    case True
    with "2.prems" obtain t ts0 where ts: "ts = t # ts0"
      and r: "Web_mergepoints_loop merges es ts0 = Inr (es', ts')"
      by (auto simp: Let_def split: list.splits)
    show ?thesis
      using "2.IH"(1)[OF refl _ ts r] True by simp
  qed
qed

lemma Web_mergepoints_loop_empty:
  "\<forall>e\<in>set es. fst e \<noteq> snd e \<Longrightarrow> Web_mergepoints_loop Map.empty es ts = Inr (es, ts)"
proof (induction es arbitrary: ts)
  case Nil
  then show ?case by simp
next
  case (Cons e es)
  obtain a b where e: "e = (a, b)" by (cases e)
  from Cons.prems have n: "a \<noteq> b" and rest: "\<forall>e\<in>set es. fst e \<noteq> snd e"
    by (simp_all add: e)
  show ?case
    using n Cons.IH[OF rest, of "tl ts"] by (cases ts) (simp_all add: e)
qed

lemma mergeclose_idempotent_web:
  assumes "Web_mergeclose (Some limit) 0 w = Inr (r, w1)"
  shows "Web_mergeclose (Some limit) 0 w1 = Inr (Map.empty, w1)"
proof -
  obtain ps merges where mm: "mergeclose_merges (Some limit) 0 (web_points w) = (ps, merges)"
    by (cases "mergeclose_merges (Some limit) 0 (web_points w)")
  with assms obtain es ts where
    l: "Web_mergepoints_loop merges (web_edges w) (web_tracks w) = Inr (es, ts)"
    and w1: "w1 = w\<lparr>web_edges := es, web_tracks := ts, web_points := hp_points ps\<rparr>"
    by (auto simp: Web_mergeclose_def Web_mergepoints_def split: sum.splits)
  have d: "distinct (map (floor_cell limit) (web_points w1))"
    using mergeclose_merges_distinct[OF mm] by (simp add: w1)
  from mergeclose_merges_fixed[OF d] obtain ps2 where
    f: "mergeclose_merges (Some limit) 0 (web_points w1) = (ps2, Map.empty)"
       "hp_points ps2 = web_points w1"
    by blast
  have "\<forall>e\<in>set (web_edges w1). fst e \<noteq> snd e"
    using Web_mergepoints_loop_nondeg[OF l] by (simp add: w1)
  then have "Web_mergepoints_loop Map.empty (web_edges w1) (web_tracks w1)
      = Inr (web_edges w1, web_tracks w1)"
    by (rule Web_mergepoints_loop_empty)
  then show ?thesis
    by (simp add: Web_mergeclose_def Web_mergepoints_def f)
qed

definition close_mesh :: "(int, unit) Mesh" where
  "close_mesh = \<lparr>points = [(0, 0, 0), (1 / 2, 0, 0), (1, 0, 0), (0, 1, 0)],
     faces = [(0, 2, 3), (1, 2, 3), (0, 1, 2)], tracks = [0, 1, 2], groups = [(), (), ()]\<rparr>"

definition merged_mesh :: "(int, unit) Mesh" where
  "merged_mesh = \<lparr>points = [(0, 0, 0), (1, 0, 0), (0, 1, 0)],
     faces = [(0, 1, 2), (0, 1, 2)], tracks = [0, 1], groups = [(), (), ()]\<rparr>"

definition close_web :: "(int, unit) Web" where
  "close_web = \<lparr>web_points = [(0, 0, 0), (1 / 2, 0, 0), (1, 0, 0), (0, 1, 0)],
     web_edges = [(0, 1), (1, 2), (2, 3)], web_tracks = [0, 1, 2], web_groups = [(), (), ()]\<rparr>"

definition merged_web :: "(int, unit) Web" where
  "merged_web = \<lparr>web_points = [(0, 0, 0), (1, 0, 0), (0, 1, 0)],
     web_edges = [(0, 1), (1, 2)], web_tracks = [1, 2], web_groups = [(), (), ()]\<rparr>"

lemma upt_0_4: "[0 ..< 4] = [0, 1, 2, 3]"
  by (simp add: upt_conv_Cons)

lemma merges_close:
  "mergeclose_merges (Some 1) 0 [(0, 0, 0), (1 / 2, 0, 0), (1, 0, 0), (0, 1, 0)]
   = (\<lparr>hp_points = [(0, 0, 0), (1, 0, 0), (0, 1, 0)], hp_cellsize = 1,
       hp_dict = [(0, 0, 0) \<mapsto> 0, (1, 0, 0) \<mapsto> 1, (0, 1, 0) \<mapsto> 2]\<rparr>,
      [1 \<mapsto> 0, 2 \<mapsto> 1, 3 \<mapsto> 2])"
  by (simp add: mergeclose_merges_def upt_0_4 hashing_PointSet_add_def hashing_PointSet_init_def
        numeral_2_eq_2)

lemma mergeclose_close_mesh:
  "mergeclose (Some 1) 0 close_mesh = Inr ([1 \<mapsto> 0, 2 \<mapsto> 1, 3 \<mapsto> 2], merged_mesh)"
  by (simp add: mergeclose_def close_mesh_def merges_close mergepoints_def merges_get_def
        merged_mesh_def)

lemma mergeclose_close_web:
  "Web_mergeclose (Some 1) 0 close_web = Inr ([1 \<mapsto> 0, 2 \<mapsto> 1, 3 \<mapsto> 2], merged_web)"
  by (simp add: Web_mergeclose_def close_web_def merges_close Web_mergepoints_def merges_get_def
        merged_web_def)

text \<open>
  Claim C5.  For a mesh and for a web, and for every limit, when \<open>mergeclose(limit)\<close>
  returns (it raises only when the track list is shorter than the faces or edges to drop), a
  second \<open>mergeclose(limit)\<close> on its result returns the empty remap and leaves the points,
  the faces or edges, the tracks and the groups as they are.
\<close>

theorem mergeclose_idempotent:
  "(0 < limit \<and> mergeclose (Some limit) 0 m = Inr (r, m1) \<longrightarrow>
      mergeclose (Some limit) 0 m1 = Inr (Map.empty, m1))
   \<and> (0 < limit' \<and> Web_mergeclose (Some limit') 0 w = Inr (r', w1) \<longrightarrow>
      Web_mergeclose (Some limit') 0 w1 = Inr (Map.empty, w1))"
  using mergeclose_idempotent_mesh[of limit m r m1] mergeclose_idempotent_web[of limit' w r' w1]
  by blast

theorem mergeclose_idempotent_witness:
  "(0 :: real) < 1
   \<and> mergeclose (Some 1) 0 close_mesh = Inr ([1 \<mapsto> 0, 2 \<mapsto> 1, 3 \<mapsto> 2], merged_mesh)
   \<and> mergeclose (Some 1) 0 merged_mesh = Inr (Map.empty, merged_mesh)
   \<and> Web_mergeclose (Some 1) 0 close_web = Inr ([1 \<mapsto> 0, 2 \<mapsto> 1, 3 \<mapsto> 2], merged_web)
   \<and> Web_mergeclose (Some 1) 0 merged_web = Inr (Map.empty, merged_web)"
  using mergeclose_idempotent[of 1 close_mesh "[1 \<mapsto> 0, 2 \<mapsto> 1, 3 \<mapsto> 2]" merged_mesh
      1 close_web "[1 \<mapsto> 0, 2 \<mapsto> 1, 3 \<mapsto> 2]" merged_web]
    mergeclose_close_mesh mergeclose_close_web
  by simp

end
